theory Spec2Isabelle
  imports Complex_Main "HOL-Library.Sublist"
begin

section \<open>JavaScript values\<close>

text \<open>
  A JavaScript string is a sequence of UTF-16 code units and \<open>length\<close> counts code
  units, so a string is a list of code units (natural numbers). \<open>js\<close> embeds an
  ASCII literal.
\<close>

type_synonym js_string = "nat list"

definition js :: "string \<Rightarrow> js_string" where
  "js s = map of_char s"

text \<open>
  The characters \<open>\s\<close> matches and \<open>trim\<close> removes: WhiteSpace and LineTerminator of
  ECMAScript. \<open>.\<close> matches everything but the four line terminators.
\<close>

definition is_js_space :: "nat \<Rightarrow> bool" where
  "is_js_space c =
     (c = 9 \<or> c = 10 \<or> c = 11 \<or> c = 12 \<or> c = 13 \<or> c = 32 \<or> c = 160 \<or> c = 5760
      \<or> (8192 \<le> c \<and> c \<le> 8202) \<or> c = 8232 \<or> c = 8233 \<or> c = 8239 \<or> c = 8287
      \<or> c = 12288 \<or> c = 65279)"

definition is_line_terminator :: "nat \<Rightarrow> bool" where
  "is_line_terminator c = (c = 10 \<or> c = 13 \<or> c = 8232 \<or> c = 8233)"

definition js_trim :: "js_string \<Rightarrow> js_string" where
  "js_trim s = rev (dropWhile is_js_space (rev (dropWhile is_js_space s)))"

text \<open>\<open>s.split(d)\<close> for a one-character separator, and \<open>xs.join(sep)\<close>.\<close>

fun split_on :: "nat \<Rightarrow> js_string \<Rightarrow> js_string list" where
  "split_on d [] = [[]]"
| "split_on d (c # cs) =
     (if c = d then [] # split_on d cs
      else (case split_on d cs of [] \<Rightarrow> [[c]] | l # ls \<Rightarrow> (c # l) # ls))"

fun join_with :: "js_string \<Rightarrow> js_string list \<Rightarrow> js_string" where
  "join_with sep [] = []"
| "join_with sep [x] = x"
| "join_with sep (x # y # ys) = x @ sep @ join_with sep (y # ys)"

definition newline :: js_string where
  "newline = [10]"

text \<open>\<open>s.includes(t)\<close>.\<close>

fun js_includes :: "js_string \<Rightarrow> js_string \<Rightarrow> bool" where
  "js_includes [] t = (t = [])"
| "js_includes (c # cs) t = (prefix t (c # cs) \<or> js_includes cs t)"

text \<open>
  Values of type \<open>any\<close>: what \<open>JSON.parse\<close> returns, and \<open>undefined\<close> for a member that
  is not there. Numbers are idealised as reals. An object lists its own members, each
  key once.
\<close>

datatype json =
    JUndefined
  | JNull
  | JBool bool
  | JNum real
  | JStr js_string
  | JArr "json list"
  | JObj "(js_string \<times> json) list"

text \<open>
  What a \<open>throw\<close> carries: an \<open>LLMError\<close> (message, type, retryable, provider,
  originalError), any other \<open>Error\<close> object (name, message), or \<open>null\<close>.
\<close>

datatype LLMErrorType =
    PROVIDER_UNAVAILABLE
  | API_ERROR
  | TIMEOUT
  | PARSE_ERROR
  | RATE_LIMIT
  | INVALID_CONFIG
  | NETWORK_ERROR
  | AUTHENTICATION_ERROR

datatype thrown =
    LLMError js_string LLMErrorType bool "js_string option" "thrown option"
  | JsError js_string js_string
  | JsNull

text \<open>
  The built-ins of the JavaScript runtime that only feed scores, keyword lists and
  parsed model output are a parameter \<open>rt\<close> of the functions that call them: the
  regular-expression engine on the expressions below, Unicode \<open>toLowerCase\<close>,
  \<open>JSON.parse\<close> (\<open>None\<close> when it throws), \<open>ToString\<close> of a value that is not a string
  and \<open>+\<close> on values of type \<open>any\<close>. Every theorem holds for every runtime. The expressions that decide which line
  goes into which chunk (the heading line, the blank line, the sentence end) are
  modelled by explicit matchers instead.
\<close>

datatype regex =
    DefinitionRe    \<comment> \<open>\<open>/is defined as|refers to|means|...|.../i\<close>\<close>
  | ListMarkerRe    \<comment> \<open>\<open>/^[\s]*[-*+]\s/m\<close>\<close>
  | CodeFenceRe     \<comment> \<open>\<open>/```/\<close>\<close>
  | EmphasisRe      \<comment> \<open>\<open>/\*\*.*?\*\*|__.*?__|==.*?==/g\<close>\<close>
  | FenceLangRe     \<comment> \<open>\<open>/```(\w+)?/g\<close>\<close>
  | CapitalizedRe   \<comment> \<open>\<open>/\b[A-Z][a-z]+(?:[A-Z][a-z]+)*\b/g\<close>\<close>
  | HeadingStartRe  \<comment> \<open>\<open>/^#{1,6}\s+/\<close>\<close>
  | JsonFenceRe     \<comment> \<open>\<open>/```json\s*([\s\S]*?)\s*```/\<close>\<close>

record js_runtime =
  regex_test :: "regex \<Rightarrow> js_string \<Rightarrow> bool"
  regex_match_all :: "regex \<Rightarrow> js_string \<Rightarrow> js_string list"
  regex_group1 :: "regex \<Rightarrow> js_string \<Rightarrow> js_string option"
  regex_replace_all :: "js_string \<Rightarrow> js_string \<Rightarrow> js_string \<Rightarrow> thrown + js_string"
  toLowerCase :: "js_string \<Rightarrow> js_string"
  JSON_parse :: "js_string \<Rightarrow> json option"
  ToString :: "json \<Rightarrow> thrown + js_string"
  js_add :: "json \<Rightarrow> json \<Rightarrow> thrown + json"

section \<open>Document chunker (document-chunker.ts)\<close>

record DocumentChunk =
  chunk_id :: nat  \<comment> \<open>the \<open>n\<close> of the id \<open>chunk-n\<close>\<close>
  content :: js_string
  index :: nat
  level :: nat
  heading :: js_string
  tokenCount :: nat
  importance :: real
  chunk_keywords :: "js_string list"
  startLine :: int
  endLine :: int

record ChunkingOptions =
  maxTokens :: "nat option"
  minTokens :: "nat option"

definition DEFAULT_MAX_TOKENS :: nat where
  "DEFAULT_MAX_TOKENS = 1500"

definition DEFAULT_MIN_TOKENS :: nat where
  "DEFAULT_MIN_TOKENS = 200"

text \<open>\<open>options?.field || dflt\<close>: a missing options object, a missing field and 0 all give the default.\<close>

fun or_default :: "nat option \<Rightarrow> nat \<Rightarrow> nat" where
  "or_default None d = d"
| "or_default (Some n) d = (if n = 0 then d else n)"

text \<open>\<open>Math.ceil(text.length / 4)\<close>.\<close>

definition estimateTokens :: "js_string \<Rightarrow> nat" where
  "estimateTokens text = (length text + 3) div 4"

text \<open>
  \<open>line.match(/^(#{1,6})\s+(.+)$/)\<close>: the two groups, or \<open>None\<close>. The hashes are all
  the leading ones (a seventh hash is not whitespace). \<open>\s+\<close> is greedy and takes the
  whole whitespace run when something follows it; when nothing follows, it gives its
  last character back to \<open>(.+)\<close>. \<open>(.+)\<close> has to reach the end of the line, so a line
  terminator after the whitespace run leaves no match.
\<close>

definition heading_match :: "js_string \<Rightarrow> (js_string \<times> js_string) option" where
  "heading_match line =
     (let hashes = takeWhile (\<lambda>c. c = 35) line;
          rest = dropWhile (\<lambda>c. c = 35) line;
          ws = takeWhile is_js_space rest;
          tail = dropWhile is_js_space rest
      in if length hashes < 1 \<or> 6 < length hashes \<or> ws = [] then None
         else if tail \<noteq> [] then
           (if list_ex is_line_terminator tail then None else Some (hashes, tail))
         else if 2 \<le> length ws \<and> \<not> is_line_terminator (last ws) then Some (hashes, [last ws])
         else None)"

text \<open>\<open>line.match(/[.!?]\s*$/)\<close>.\<close>

definition ends_sentence :: "js_string \<Rightarrow> bool" where
  "ends_sentence line =
     (case dropWhile is_js_space (rev line) of
        [] \<Rightarrow> False
      | c # _ \<Rightarrow> c = 46 \<or> c = 33 \<or> c = 63)"

text \<open>
  \<open>findSplitPoint\<close>. Both loops run \<open>i\<close> from \<open>lines.length - 1\<close> down while
  \<open>i > lines.length / 2\<close>, that is over the indices \<open>n div 2 + 1 .. n - 1\<close>, highest
  first; the fallback is \<open>Math.floor(lines.length * 0.75)\<close>.
\<close>

definition upper_half :: "nat \<Rightarrow> nat list" where
  "upper_half n = rev [n div 2 + 1 ..< n]"

definition findSplitPoint :: "js_string list \<Rightarrow> nat" where
  "findSplitPoint lines =
     (case find (\<lambda>i. js_trim (lines ! i) = []) (upper_half (length lines)) of
        Some i \<Rightarrow> i
      | None \<Rightarrow>
          (case find (\<lambda>i. ends_sentence (lines ! i)) (upper_half (length lines)) of
             Some i \<Rightarrow> i + 1
           | None \<Rightarrow> (3 * length lines) div 4))"

text \<open>
  \<open>calculateImportance\<close>. The keyword list is the source's, the four Korean words as
  their code units.
\<close>

definition importantKeywords :: "js_string list" where
  "importantKeywords =
     [js ''important'', js ''key'', js ''crucial'', js ''essential'', js ''fundamental'',
      [51473, 50836], [54645, 49900], [54596, 49688], [44592, 48376]]"

definition calculateImportance :: "js_runtime \<Rightarrow> js_string \<Rightarrow> nat \<Rightarrow> real" where
  "calculateImportance rt text lvl =
     (let score = 0.5;
          score = score + (6 - real lvl) * 0.05;
          score = (if regex_test rt DefinitionRe text then score + 0.15 else score);
          score = (if regex_test rt ListMarkerRe text then score + 0.1 else score);
          score = (if regex_test rt CodeFenceRe text then score + 0.1 else score);
          emphasisCount = length (regex_match_all rt EmphasisRe text);
          score = score + min (real emphasisCount * 0.02) 0.1;
          score = fold (\<lambda>keyword score.
                    if js_includes (toLowerCase rt text) keyword then score + 0.05 else score)
                  importantKeywords score
      in min score 1.0)"

text \<open>
  \<open>extractKeywords\<close>. The \<open>Set\<close> keeps the first occurrence of each keyword, in
  insertion order.
\<close>

definition set_add :: "js_string list \<Rightarrow> js_string \<Rightarrow> js_string list" where
  "set_add ks k = (if k \<in> set ks then ks else ks @ [k])"

text \<open>\<open>s.replace(/```/, '')\<close>: the first occurrence goes.\<close>

fun remove_first :: "js_string \<Rightarrow> js_string \<Rightarrow> js_string" where
  "remove_first pat [] = []"
| "remove_first pat (c # cs) =
     (if prefix pat (c # cs) then drop (length pat) (c # cs) else c # remove_first pat cs)"

definition extractKeywords :: "js_runtime \<Rightarrow> js_string \<Rightarrow> js_string list" where
  "extractKeywords rt text =
     (let ks = fold (\<lambda>m ks.
                  let cleaned = js_trim (filter (\<lambda>c. c \<noteq> 42 \<and> c \<noteq> 95 \<and> c \<noteq> 61) m)
                  in if 2 < length cleaned then set_add ks cleaned else ks)
                (regex_match_all rt EmphasisRe text) [];
          ks = fold (\<lambda>m ks.
                  let lang = js_trim (remove_first (js ''```'') m)
                  in if lang \<noteq> [] then set_add ks lang else ks)
                (regex_match_all rt FenceLangRe text) ks;
          ks = fold (\<lambda>word ks. if 3 < length word then set_add ks word else ks)
                (regex_match_all rt CapitalizedRe text) ks
      in take 10 ks)"

text \<open>
  The loop of \<open>chunkDocument\<close> over the lines, as a state. \<open>log\<close> is a ghost field: the
  source has no such variable and nothing reads it. It records, for every buffer the
  loop lets go of, the lines it held, whether it was pushed as a chunk or discarded,
  and at which place of the source: the heading branch, the size split, or the flush
  after the loop.
\<close>

datatype site = AtHeading | AtSplit | AtEnd

datatype segment = Pushed site "js_string list" | Discarded site "js_string list"

record chunker =
  chunks :: "DocumentChunk list"
  currentChunk :: "js_string list"
  currentHeading :: js_string
  currentLevel :: nat
  chunkIndex :: nat
  chunkStart :: int
  log :: "segment list"

definition new_chunk ::
  "js_runtime \<Rightarrow> chunker \<Rightarrow> js_string \<Rightarrow> int \<Rightarrow> DocumentChunk" where
  "new_chunk rt s text end_line =
     \<lparr> chunk_id = chunkIndex s,
       content = text,
       index = chunkIndex s,
       level = currentLevel s,
       heading = currentHeading s,
       tokenCount = estimateTokens text,
       importance = calculateImportance rt text (currentLevel s),
       chunk_keywords = extractKeywords rt text,
       startLine = chunkStart s,
       endLine = end_line \<rparr>"

definition initial_chunker :: chunker where
  "initial_chunker =
     \<lparr> chunks = [], currentChunk = [], currentHeading = js ''Introduction'',
       currentLevel = 0, chunkIndex = 0, chunkStart = 0, log = [] \<rparr>"

text \<open>The heading branch of the loop body, for line \<open>i\<close> with match \<open>m\<close>.\<close>

definition heading_line ::
  "js_runtime \<Rightarrow> nat \<Rightarrow> nat \<Rightarrow> js_string \<Rightarrow> js_string \<times> js_string \<Rightarrow> chunker \<Rightarrow> chunker" where
  "heading_line rt minT i line m s =
     (let s1 =
        (if currentChunk s \<noteq> [] then
           (let chunkContent = join_with newline (currentChunk s);
                s2 = (if minT \<le> estimateTokens chunkContent
                      then s\<lparr> chunks := chunks s @ [new_chunk rt s chunkContent (int i - 1)],
                              chunkIndex := chunkIndex s + 1,
                              log := log s @ [Pushed AtHeading (currentChunk s)] \<rparr>
                      else s\<lparr> log := log s @ [Discarded AtHeading (currentChunk s)] \<rparr>)
            in s2\<lparr> currentChunk := [], chunkStart := int i \<rparr>)
         else s)
      in s1\<lparr> currentLevel := length (fst m),
              currentHeading := js_trim (snd m),
              currentChunk := currentChunk s1 @ [line] \<rparr>)"

text \<open>The other branch: append, and split once the buffer reaches \<open>maxTokens\<close>.\<close>

definition body_line :: "js_runtime \<Rightarrow> nat \<Rightarrow> js_string \<Rightarrow> chunker \<Rightarrow> chunker" where
  "body_line rt maxT line s =
     (let s1 = s\<lparr> currentChunk := currentChunk s @ [line] \<rparr>;
          currentContent = join_with newline (currentChunk s1)
      in if maxT \<le> estimateTokens currentContent then
           (let splitPoint = findSplitPoint (currentChunk s1)
            in if 0 < splitPoint then
                 (let beforeSplit = join_with newline (take splitPoint (currentChunk s1));
                      afterSplit = drop splitPoint (currentChunk s1)
                  in s1\<lparr> chunks := chunks s1 @
                            [new_chunk rt s1 beforeSplit (chunkStart s1 + int splitPoint - 1)],
                          chunkIndex := chunkIndex s1 + 1,
                          currentChunk := afterSplit,
                          chunkStart := chunkStart s1 + int splitPoint,
                          log := log s1 @ [Pushed AtSplit (take splitPoint (currentChunk s1))] \<rparr>)
               else s1)
         else s1)"

definition chunk_step ::
  "js_runtime \<Rightarrow> nat \<Rightarrow> nat \<Rightarrow> nat \<Rightarrow> js_string \<Rightarrow> chunker \<Rightarrow> chunker" where
  "chunk_step rt maxT minT i line s =
     (case heading_match line of
        Some m \<Rightarrow> heading_line rt minT i line m s
      | None \<Rightarrow> body_line rt maxT line s)"

fun chunk_loop ::
  "js_runtime \<Rightarrow> nat \<Rightarrow> nat \<Rightarrow> nat \<Rightarrow> js_string list \<Rightarrow> chunker \<Rightarrow> chunker" where
  "chunk_loop rt maxT minT i [] s = s"
| "chunk_loop rt maxT minT i (line # rest) s =
     chunk_loop rt maxT minT (i + 1) rest (chunk_step rt maxT minT i line s)"

text \<open>
  The flush after the loop; \<open>tokenCount >= minTokens / 2\<close> is a comparison of reals,
  \<open>n\<close> being \<open>lines.length\<close>.
\<close>

definition final_flush :: "js_runtime \<Rightarrow> nat \<Rightarrow> nat \<Rightarrow> chunker \<Rightarrow> chunker" where
  "final_flush rt minT n s =
     (if currentChunk s \<noteq> [] then
        (let chunkContent = join_with newline (currentChunk s)
         in if minT \<le> 2 * estimateTokens chunkContent
            then s\<lparr> chunks := chunks s @ [new_chunk rt s chunkContent (int n - 1)],
                    log := log s @ [Pushed AtEnd (currentChunk s)] \<rparr>
            else s\<lparr> log := log s @ [Discarded AtEnd (currentChunk s)] \<rparr>)
      else s)"

definition chunk_lines :: "js_runtime \<Rightarrow> nat \<Rightarrow> nat \<Rightarrow> js_string list \<Rightarrow> chunker" where
  "chunk_lines rt maxT minT lines =
     final_flush rt minT (length lines) (chunk_loop rt maxT minT 0 lines initial_chunker)"

text \<open>The first two lines of \<open>chunkDocument\<close>: the bounds in force.\<close>

definition maxTokens_of :: "ChunkingOptions option \<Rightarrow> nat" where
  "maxTokens_of options =
     or_default (case options of None \<Rightarrow> None | Some opts \<Rightarrow> maxTokens opts) DEFAULT_MAX_TOKENS"

definition minTokens_of :: "ChunkingOptions option \<Rightarrow> nat" where
  "minTokens_of options =
     or_default (case options of None \<Rightarrow> None | Some opts \<Rightarrow> minTokens opts) DEFAULT_MIN_TOKENS"

definition chunker_run :: "js_runtime \<Rightarrow> js_string \<Rightarrow> ChunkingOptions option \<Rightarrow> chunker" where
  "chunker_run rt text options =
     chunk_lines rt (maxTokens_of options) (minTokens_of options) (split_on 10 text)"

definition chunkDocument ::
  "js_runtime \<Rightarrow> js_string \<Rightarrow> ChunkingOptions option \<Rightarrow> DocumentChunk list" where
  "chunkDocument rt text options = chunks (chunker_run rt text options)"

text \<open>The ghost log of the same run.\<close>

definition chunk_log ::
  "js_runtime \<Rightarrow> js_string \<Rightarrow> ChunkingOptions option \<Rightarrow> segment list" where
  "chunk_log rt text options = log (chunker_run rt text options)"

text \<open>Reading the ghost log.\<close>

fun segment_lines :: "segment \<Rightarrow> js_string list" where
  "segment_lines (Pushed st ls) = ls"
| "segment_lines (Discarded st ls) = ls"

fun segment_site :: "segment \<Rightarrow> site" where
  "segment_site (Pushed st ls) = st"
| "segment_site (Discarded st ls) = st"

fun is_pushed :: "segment \<Rightarrow> bool" where
  "is_pushed (Pushed st ls) = True"
| "is_pushed (Discarded st ls) = False"

definition segment_tokens :: "segment \<Rightarrow> nat" where
  "segment_tokens seg = estimateTokens (join_with newline (segment_lines seg))"

text \<open>
  What the guards of the source let through at each place: a buffer met at a heading is
  pushed when it has at least \<open>minTokens\<close> tokens and discarded otherwise; the last
  buffer is pushed when it has at least \<open>minTokens / 2\<close> and discarded otherwise; a
  size split pushes without a guard and never discards.
\<close>

fun segment_ok :: "nat \<Rightarrow> segment \<Rightarrow> bool" where
  "segment_ok minT (Pushed AtHeading ls) = (minT \<le> estimateTokens (join_with newline ls))"
| "segment_ok minT (Pushed AtSplit ls) = (ls \<noteq> [])"
| "segment_ok minT (Pushed AtEnd ls) = (minT \<le> 2 * estimateTokens (join_with newline ls))"
| "segment_ok minT (Discarded AtHeading ls) = (estimateTokens (join_with newline ls) < minT)"
| "segment_ok minT (Discarded AtSplit ls) = False"
| "segment_ok minT (Discarded AtEnd ls) = (2 * estimateTokens (join_with newline ls) < minT)"

text \<open>The places that pushed the chunks, in order, and the floor each place enforces.\<close>

definition pushed_sites :: "segment list \<Rightarrow> site list" where
  "pushed_sites lg = map segment_site (filter is_pushed lg)"

fun site_floor :: "nat \<Rightarrow> site \<Rightarrow> nat \<Rightarrow> bool" where
  "site_floor minT AtHeading n = (minT \<le> n)"
| "site_floor minT AtSplit n = True"
| "site_floor minT AtEnd n = (minT \<le> 2 * n)"

text \<open>The invariants of the loop used in the proofs below.\<close>

definition chunker_inv :: "nat \<Rightarrow> js_string list \<Rightarrow> chunker \<Rightarrow> bool" where
  "chunker_inv minT consumed s =
     (concat (map segment_lines (log s)) @ currentChunk s = consumed
      \<and> map content (chunks s)
          = map (\<lambda>seg. join_with newline (segment_lines seg)) (filter is_pushed (log s))
      \<and> list_all (\<lambda>c. tokenCount c = estimateTokens (content c) \<and> level c \<le> 6) (chunks s)
      \<and> list_all (\<lambda>seg. segment_ok minT seg \<and> segment_site seg \<noteq> AtEnd
                         \<and> segment_lines seg \<noteq> []) (log s)
      \<and> currentLevel s \<le> 6)"

definition importance_inv :: "chunker \<Rightarrow> bool" where
  "importance_inv s =
     (list_all (\<lambda>c. 0 \<le> importance c \<and> importance c \<le> 1) (chunks s) \<and> currentLevel s \<le> 6)"

text \<open>
  A runtime that finds nothing, for evaluating concrete documents. On a text of lower-case
  letters, hash signs, spaces and newlines it answers the expressions of the chunker as
  the real engine does: none of them matches, and \<open>toLowerCase\<close> changes nothing.
\<close>

definition quiet_runtime :: js_runtime where
  "quiet_runtime =
     \<lparr> regex_test = (\<lambda>re s. False),
       regex_match_all = (\<lambda>re s. []),
       regex_group1 = (\<lambda>re s. None),
       regex_replace_all = (\<lambda>src s rep. Inr s),
       toLowerCase = (\<lambda>s. s),
       JSON_parse = (\<lambda>s. None),
       ToString = (\<lambda>v. Inr []),
       js_add = (\<lambda>a b. Inr b) \<rparr>"

section \<open>Dispatch router (llm-router.ts)\<close>

record LLMMessage =
  msg_role :: js_string
  msg_content :: js_string

text \<open>
  \<open>LLMResponse\<close>. The provider fills the fields from the payload without checking their
  types, so each holds whatever value the payload had there.
\<close>

record LLMResponse =
  resp_content :: json
  promptTokens :: json
  completionTokens :: json
  totalTokens :: json
  resp_model :: json
  finishReason :: json

text \<open>
  What the router does to the outside world, in order: an availability check of a
  provider with its answer, a call of \<open>generateCompletion\<close> with its outcome, a sleep of
  so many milliseconds. A provider is an object with state behind a network, so its
  answer may depend on everything that happened before: it is a function of the trace so
  far. The provider is named in the trace by the name it is tried under.
\<close>

datatype event =
    Checked js_string "thrown + bool"
  | Attempt js_string "thrown + LLMResponse"
  | Sleep nat

record provider =
  isAvailable :: "event list \<Rightarrow> thrown + bool"
  generateCompletion :: "event list \<Rightarrow> LLMMessage list \<Rightarrow> thrown + LLMResponse"

text \<open>\<open>retryAttempts\<close> is a count and \<open>retryDelay\<close> a number of milliseconds: naturals.\<close>

record LLMRouter =
  providers :: "js_string \<Rightarrow> provider option"
  defaultProvider :: "js_string option"
  fallbackProviders :: "js_string list"
  retryAttempts :: nat
  retryDelay :: nat

definition new_router :: LLMRouter where
  "new_router =
     \<lparr> providers = (\<lambda>name. None), defaultProvider = None, fallbackProviders = [],
       retryAttempts = 3, retryDelay = 1000 \<rparr>"

definition registerProvider :: "js_string \<Rightarrow> provider \<Rightarrow> LLMRouter \<Rightarrow> LLMRouter" where
  "registerProvider name p r = r\<lparr> providers := (providers r)(name := Some p) \<rparr>"

definition not_registered :: "js_string \<Rightarrow> thrown" where
  "not_registered name =
     LLMError (js ''Provider '' @ name @ js '' not registered'') INVALID_CONFIG False None None"

definition setDefaultProvider :: "js_string \<Rightarrow> LLMRouter \<Rightarrow> thrown + LLMRouter" where
  "setDefaultProvider name r =
     (if providers r name = None then Inl (not_registered name)
      else Inr (r\<lparr> defaultProvider := Some name \<rparr>))"

definition setFallbackChain :: "js_string list \<Rightarrow> LLMRouter \<Rightarrow> thrown + LLMRouter" where
  "setFallbackChain names r =
     (case find (\<lambda>name. providers r name = None) names of
        Some name \<Rightarrow> Inl (not_registered name)
      | None \<Rightarrow> Inr (r\<lparr> fallbackProviders := names \<rparr>))"

definition setRetryConfig :: "nat \<Rightarrow> nat \<Rightarrow> LLMRouter \<Rightarrow> LLMRouter" where
  "setRetryConfig attempts delay r = r\<lparr> retryAttempts := attempts, retryDelay := delay \<rparr>"

text \<open>
  \<open>buildProviderChain\<close>. \<open>preferredProvider && ...\<close> and \<open>this.defaultProvider && ...\<close> are
  truthiness tests: the empty string is skipped like a missing one.
\<close>

definition buildProviderChain :: "LLMRouter \<Rightarrow> js_string option \<Rightarrow> js_string list" where
  "buildProviderChain r preferredProvider =
     (let chain =
            (case preferredProvider of
               None \<Rightarrow> []
             | Some p \<Rightarrow> if p \<noteq> [] \<and> providers r p \<noteq> None then [p] else []);
          chain =
            (case defaultProvider r of
               None \<Rightarrow> chain
             | Some d \<Rightarrow> if d \<noteq> [] \<and> d \<notin> set chain then chain @ [d] else chain)
      in fold (\<lambda>fallback chain. if fallback \<notin> set chain then chain @ [fallback] else chain)
           (fallbackProviders r) chain)"

text \<open>
  \<open>generateWithRetry\<close>: the loop from \<open>attempt\<close> on, with \<open>lastError\<close> and the trace so
  far. It returns what the method returns or throws, and the trace.
\<close>

function retry_loop ::
  "LLMRouter \<Rightarrow> provider \<Rightarrow> js_string \<Rightarrow> LLMMessage list \<Rightarrow> nat \<Rightarrow> thrown \<Rightarrow> event list
     \<Rightarrow> (thrown + LLMResponse) \<times> event list" where
  "retry_loop r p name messages attempt lastError tr =
     (if attempt < retryAttempts r then
        (case generateCompletion p tr messages of
           Inr response \<Rightarrow> (Inr response, tr @ [Attempt name (Inr response)])
         | Inl error \<Rightarrow>
             (case error of
                LLMError msg ty retryable prov orig \<Rightarrow>
                  if \<not> retryable then (Inl error, tr @ [Attempt name (Inl error)])
                  else retry_loop r p name messages (attempt + 1) error
                         (if attempt < retryAttempts r - 1
                          then tr @ [Attempt name (Inl error), Sleep (retryDelay r * 2 ^ attempt)]
                          else tr @ [Attempt name (Inl error)])
              | JsError nm msg \<Rightarrow> (Inl error, tr @ [Attempt name (Inl error)])
              | JsNull \<Rightarrow> (Inl error, tr @ [Attempt name (Inl error)])))
      else (Inl lastError, tr))"
  by pat_completeness auto
termination
  by (relation "measure (\<lambda>(r, p, name, messages, attempt, lastError, tr). retryAttempts r - attempt)")
    auto

declare retry_loop.simps [simp del]

definition generateWithRetry ::
  "LLMRouter \<Rightarrow> provider \<Rightarrow> js_string \<Rightarrow> LLMMessage list \<Rightarrow> event list
     \<Rightarrow> (thrown + LLMResponse) \<times> event list" where
  "generateWithRetry r p name messages tr = retry_loop r p name messages 0 JsNull tr"

text \<open>
  The \<open>catch\<close> of \<open>generate\<close>: the new \<open>lastError\<close> (\<open>Inr\<close>), with which the loop goes on
  to the next provider, or what the \<open>catch\<close> block itself throws (\<open>Inl\<close>): reading
  \<open>error.message\<close> of \<open>null\<close> is a TypeError, and it leaves \<open>generate\<close>.
\<close>

definition null_message_error :: thrown where
  "null_message_error =
     JsError (js ''TypeError'') (js ''Cannot read properties of null (reading message)'')"

definition caught :: "js_string \<Rightarrow> thrown \<Rightarrow> thrown + thrown" where
  "caught providerName error =
     (case error of
        LLMError msg ty retryable prov orig \<Rightarrow> Inr error
      | JsError nm msg \<Rightarrow>
          Inr (LLMError (js ''Unexpected error with provider '' @ providerName @ js '': '' @ msg)
                 API_ERROR False (Some providerName) (Some error))
      | JsNull \<Rightarrow>
          Inl null_message_error)"

fun try_providers ::
  "LLMRouter \<Rightarrow> LLMMessage list \<Rightarrow> js_string list \<Rightarrow> thrown option \<Rightarrow> event list
     \<Rightarrow> (thrown + LLMResponse) \<times> event list" where
  "try_providers r messages [] lastError tr =
     (case lastError of
        Some error \<Rightarrow> (Inl error, tr)
      | None \<Rightarrow>
          (Inl (LLMError (js ''All LLM providers failed'') PROVIDER_UNAVAILABLE False None None), tr))"
| "try_providers r messages (providerName # rest) lastError tr =
     (case providers r providerName of
        None \<Rightarrow> try_providers r messages rest lastError tr
      | Some p \<Rightarrow>
          (case isAvailable p tr of
             Inl error \<Rightarrow>
               (case caught providerName error of
                  Inl escaped \<Rightarrow> (Inl escaped, tr @ [Checked providerName (Inl error)])
                | Inr newLast \<Rightarrow>
                    try_providers r messages rest (Some newLast)
                      (tr @ [Checked providerName (Inl error)]))
           | Inr available \<Rightarrow>
               if \<not> available then
                 try_providers r messages rest
                   (Some (LLMError (js ''Provider '' @ providerName @ js '' is not available'')
                            PROVIDER_UNAVAILABLE True (Some providerName) None))
                   (tr @ [Checked providerName (Inr False)])
               else
                 (case generateWithRetry r p providerName messages
                         (tr @ [Checked providerName (Inr True)]) of
                    (Inr response, tr') \<Rightarrow> (Inr response, tr')
                  | (Inl error, tr') \<Rightarrow>
                      (case caught providerName error of
                         Inl escaped \<Rightarrow> (Inl escaped, tr')
                       | Inr newLast \<Rightarrow> try_providers r messages rest (Some newLast) tr'))))"

definition generate ::
  "LLMRouter \<Rightarrow> LLMMessage list \<Rightarrow> js_string option \<Rightarrow> event list
     \<Rightarrow> (thrown + LLMResponse) \<times> event list" where
  "generate r messages preferredProvider tr =
     (let providerChain = buildProviderChain r preferredProvider
      in if providerChain = [] then
           (Inl (LLMError (js ''No LLM providers available'') PROVIDER_UNAVAILABLE False None None), tr)
         else try_providers r messages providerChain None tr)"

text \<open>Reading a trace.\<close>

fun invokes :: "js_string \<Rightarrow> event \<Rightarrow> bool" where
  "invokes name (Checked n a) = (n = name)"
| "invokes name (Attempt n outcome) = (n = name)"
| "invokes name (Sleep ms) = False"

fun is_success :: "event \<Rightarrow> bool" where
  "is_success (Attempt n (Inr response)) = True"
| "is_success e = False"

fun is_attempt :: "event \<Rightarrow> bool" where
  "is_attempt (Attempt n outcome) = True"
| "is_attempt e = False"

text \<open>A trace with the answers left out: a call or a wait.\<close>

datatype step = Call | Wait nat

fun retry_steps :: "event list \<Rightarrow> step list" where
  "retry_steps [] = []"
| "retry_steps (Attempt n outcome # es) = Call # retry_steps es"
| "retry_steps (Sleep ms # es) = Wait ms # retry_steps es"
| "retry_steps (Checked n a # es) = retry_steps es"

text \<open>
  The retry policy in the words of the specification: \<open>n\<close> calls, and after the
  \<open>i\<close>-th failed one, for \<open>i < n - 1\<close>, a wait of \<open>delay * 2 ^ i\<close>.
\<close>

definition backoff_schedule :: "nat \<Rightarrow> nat \<Rightarrow> step list" where
  "backoff_schedule n delay =
     concat (map (\<lambda>i. if i < n - 1 then [Call, Wait (delay * 2 ^ i)] else [Call]) [0..<n])"

fun retryable_failure :: "thrown + LLMResponse \<Rightarrow> bool" where
  "retryable_failure (Inl (LLMError msg ty retryable prov orig)) = retryable"
| "retryable_failure outcome = False"

fun final_failure :: "thrown + LLMResponse \<Rightarrow> bool" where
  "final_failure (Inl (LLMError msg ty retryable prov orig)) = (\<not> retryable)"
| "final_failure outcome = False"

text \<open>
  The events of one provider's retry loop, each call answered by the provider: the
  outcome an \<open>Attempt\<close> records is what the provider's \<open>generateCompletion\<close> returns or
  throws on the trace before it. The loop checks no availability.
\<close>

fun calls_answered ::
  "provider \<Rightarrow> js_string \<Rightarrow> LLMMessage list \<Rightarrow> event list \<Rightarrow> event list \<Rightarrow> bool" where
  "calls_answered p name messages tr [] = True"
| "calls_answered p name messages tr (Attempt n outcome # es) =
     (n = name \<and> outcome = generateCompletion p tr messages
      \<and> calls_answered p name messages (tr @ [Attempt n outcome]) es)"
| "calls_answered p name messages tr (Sleep ms # es) =
     calls_answered p name messages (tr @ [Sleep ms]) es"
| "calls_answered p name messages tr (Checked n a # es) = False"

text \<open>
  The same for a run of \<open>generate\<close>: every event names a registered provider, and
  records the answer of that provider's \<open>isAvailable\<close> or \<open>generateCompletion\<close> on the
  trace before it.
\<close>

fun answered :: "LLMRouter \<Rightarrow> LLMMessage list \<Rightarrow> event list \<Rightarrow> event list \<Rightarrow> bool" where
  "answered r messages tr [] = True"
| "answered r messages tr (Checked n a # es) =
     ((case providers r n of None \<Rightarrow> False | Some p \<Rightarrow> a = isAvailable p tr)
      \<and> answered r messages (tr @ [Checked n a]) es)"
| "answered r messages tr (Attempt n outcome # es) =
     ((case providers r n of None \<Rightarrow> False | Some p \<Rightarrow> outcome = generateCompletion p tr messages)
      \<and> answered r messages (tr @ [Attempt n outcome]) es)"
| "answered r messages tr (Sleep ms # es) = answered r messages (tr @ [Sleep ms]) es"

text \<open>
  An event that shows provider \<open>name\<close> was given its turn: it was found not available
  (its check answered anything but \<open>true\<close>), or its \<open>generateCompletion\<close> was called.
\<close>

fun consulted :: "js_string \<Rightarrow> event \<Rightarrow> bool" where
  "consulted name (Checked n a) = (n = name \<and> a \<noteq> Inr True)"
| "consulted name (Attempt n outcome) = (n = name)"
| "consulted name (Sleep ms) = False"

fun is_llm_error :: "thrown \<Rightarrow> bool" where
  "is_llm_error (LLMError msg ty retryable prov orig) = True"
| "is_llm_error error = False"

text \<open>An event in which a provider threw \<open>null\<close>; an availability check answered \<open>true\<close>.\<close>

fun null_answer :: "event \<Rightarrow> bool" where
  "null_answer (Checked n (Inl JsNull)) = True"
| "null_answer (Attempt n (Inl JsNull)) = True"
| "null_answer e = False"

fun found_available :: "event \<Rightarrow> bool" where
  "found_available (Checked n (Inr True)) = True"
| "found_available e = False"

text \<open>
  What a run of \<open>generate\<close> over a chain may leave behind. On success, the trace ends
  with the successful call of some provider of the chain, no call before it succeeded,
  only that provider and the ones before it in the chain were invoked, and every
  registered provider before it was given its turn. On failure no call succeeded; when
  the error is an \<open>LLMError\<close>, every registered provider of the chain was given its turn;
  the only other error is the TypeError of the \<open>catch\<close> block, and then the run ends
  with a provider throwing \<open>null\<close> or, \<open>retryAttempts\<close> being 0, with an available one.
\<close>

definition chain_outcome ::
  "LLMRouter \<Rightarrow> js_string list \<Rightarrow> thrown + LLMResponse \<Rightarrow> event list \<Rightarrow> bool" where
  "chain_outcome r chain res evs =
     (case res of
        Inr response \<Rightarrow>
          (\<exists>pre name post evs0.
              chain = pre @ name # post
            \<and> evs = evs0 @ [Attempt name (Inr response)]
            \<and> \<not> list_ex is_success evs0
            \<and> list_all (\<lambda>e. \<forall>m. invokes m e \<longrightarrow> m \<in> set pre \<union> {name}) evs
            \<and> list_all (\<lambda>m. providers r m = None \<or> list_ex (consulted m) evs0) pre)
      | Inl error \<Rightarrow>
          \<not> list_ex is_success evs
          \<and> list_all (\<lambda>e. \<forall>m. invokes m e \<longrightarrow> m \<in> set chain) evs
          \<and> (if is_llm_error error
               then list_all (\<lambda>m. providers r m = None \<or> list_ex (consulted m) evs) chain
               else error = null_message_error \<and> evs \<noteq> []
                    \<and> (null_answer (last evs) \<or> retryAttempts r = 0 \<and> found_available (last evs))))"

text \<open>Mock providers and a router with two of them, for concrete runs.\<close>

definition reply :: LLMResponse where
  "reply =
     \<lparr> resp_content = JStr (js ''ok''), promptTokens = JNum 0, completionTokens = JNum 0,
       totalTokens = JNum 0, resp_model = JStr (js ''m''), finishReason = JStr (js ''stop'') \<rparr>"

definition succeeding :: provider where
  "succeeding =
     \<lparr> isAvailable = (\<lambda>tr. Inr True), generateCompletion = (\<lambda>tr messages. Inr reply) \<rparr>"

definition rate_limited :: provider where
  "rate_limited =
     \<lparr> isAvailable = (\<lambda>tr. Inr True),
       generateCompletion = (\<lambda>tr messages.
         Inl (LLMError (js ''Rate limit exceeded'') RATE_LIMIT True (Some (js ''p1'')) None)) \<rparr>"

definition unauthorized :: provider where
  "unauthorized =
     \<lparr> isAvailable = (\<lambda>tr. Inr True),
       generateCompletion = (\<lambda>tr messages.
         Inl (LLMError (js ''Authentication failed: 401'') AUTHENTICATION_ERROR False
                (Some (js ''p1'')) None)) \<rparr>"

definition two_provider_router :: LLMRouter where
  "two_provider_router =
     (registerProvider (js ''p2'') succeeding (registerProvider (js ''p1'') succeeding new_router))
       \<lparr> defaultProvider := Some (js ''p1''), fallbackProviders := [js ''p2''] \<rparr>"

text \<open>A provider that is throttled once and answers a server error from then on.\<close>

definition throttled_then_down :: provider where
  "throttled_then_down =
     \<lparr> isAvailable = (\<lambda>tr. Inr True),
       generateCompletion = (\<lambda>tr messages.
         if list_ex is_attempt tr
         then Inl (LLMError (js ''Server error: 500'') API_ERROR True (Some (js ''p1'')) None)
         else Inl (LLMError (js ''Rate limit exceeded'') RATE_LIMIT True (Some (js ''p1'')) None)) \<rparr>"

text \<open>A router whose first provider refuses the key and whose second answers.\<close>

definition fallback_router :: LLMRouter where
  "fallback_router =
     (registerProvider (js ''p2'') succeeding (registerProvider (js ''p1'') unauthorized new_router))
       \<lparr> defaultProvider := Some (js ''p1''), fallbackProviders := [js ''p2''] \<rparr>"

section \<open>Reading values of type any\<close>

text \<open>
  Member access \<open>v.k\<close> for the member names the sources use (none of them is a built-in
  of \<open>Object\<close>, \<open>Array\<close> or \<open>String\<close> but \<open>length\<close>), element access \<open>v[i]\<close>,
  truthiness and \<open>||\<close>. Reading a member of \<open>null\<close> or \<open>undefined\<close> throws a TypeError.
\<close>

fun decimal :: "nat \<Rightarrow> js_string" where
  "decimal n = (if n < 10 then [48 + n] else decimal (n div 10) @ [48 + n mod 10])"

declare decimal.simps [simp del]

definition type_error :: "js_string \<Rightarrow> thrown" where
  "type_error msg = JsError (js ''TypeError'') msg"

fun get_member :: "json \<Rightarrow> js_string \<Rightarrow> thrown + json" where
  "get_member JUndefined k = Inl (type_error (js ''Cannot read properties of undefined''))"
| "get_member JNull k = Inl (type_error (js ''Cannot read properties of null''))"
| "get_member (JObj members) k = Inr (case map_of members k of Some v \<Rightarrow> v | None \<Rightarrow> JUndefined)"
| "get_member (JArr xs) k = Inr (if k = js ''length'' then JNum (real (length xs)) else JUndefined)"
| "get_member (JStr s) k = Inr (if k = js ''length'' then JNum (real (length s)) else JUndefined)"
| "get_member (JBool b) k = Inr JUndefined"
| "get_member (JNum x) k = Inr JUndefined"

fun get_index :: "json \<Rightarrow> nat \<Rightarrow> thrown + json" where
  "get_index JUndefined i = Inl (type_error (js ''Cannot read properties of undefined''))"
| "get_index JNull i = Inl (type_error (js ''Cannot read properties of null''))"
| "get_index (JObj members) i =
     Inr (case map_of members (decimal i) of Some v \<Rightarrow> v | None \<Rightarrow> JUndefined)"
| "get_index (JArr xs) i = Inr (if i < length xs then xs ! i else JUndefined)"
| "get_index (JStr s) i = Inr (if i < length s then JStr [s ! i] else JUndefined)"
| "get_index (JBool b) i = Inr JUndefined"
| "get_index (JNum x) i = Inr JUndefined"

text \<open>\<open>v?.k\<close>.\<close>

fun opt_member :: "json \<Rightarrow> js_string \<Rightarrow> thrown + json" where
  "opt_member JUndefined k = Inr JUndefined"
| "opt_member JNull k = Inr JUndefined"
| "opt_member v k = get_member v k"

fun truthy :: "json \<Rightarrow> bool" where
  "truthy JUndefined = False"
| "truthy JNull = False"
| "truthy (JBool b) = b"
| "truthy (JNum x) = (x \<noteq> 0)"
| "truthy (JStr s) = (s \<noteq> [])"
| "truthy (JArr xs) = True"
| "truthy (JObj members) = True"

definition js_or :: "json \<Rightarrow> json \<Rightarrow> json" where
  "js_or a b = (if truthy a then a else b)"

text \<open>Sequencing of steps that may throw.\<close>

definition and_then :: "thrown + 'a \<Rightarrow> ('a \<Rightarrow> thrown + 'b) \<Rightarrow> thrown + 'b" where
  "and_then m f = (case m of Inl error \<Rightarrow> Inl error | Inr x \<Rightarrow> f x)"

text \<open>\<open>error.message\<close> of a caught error object.\<close>

fun message_of :: "thrown \<Rightarrow> js_string" where
  "message_of (LLMError msg ty retryable prov orig) = msg"
| "message_of (JsError nm msg) = msg"
| "message_of JsNull = js ''undefined''"

section \<open>Provider client (openai-compatible-provider.ts)\<close>

record LLMConfig =
  cfg_provider :: js_string
  apiKey :: "js_string option"
  endpoint :: js_string
  cfg_model :: js_string
  temperature :: "real option"
  cfg_maxTokens :: "nat option"
  timeout :: "nat option"

text \<open>
  The request handed to \<open>requestUrl\<close>; \<open>body\<close> is the payload before
  \<open>JSON.stringify\<close>. The network is a function from the request to what \<open>requestUrl\<close>
  does: it rejects with an \<open>Error\<close> (a connection failure, with its message) or resolves
  with a status, the body text and the body as JSON.
\<close>

record payload =
  p_model :: js_string
  p_messages :: "LLMMessage list"
  p_temperature :: real
  p_max_tokens :: nat

record request =
  url :: js_string
  http_method :: js_string
  headers :: "(js_string \<times> js_string) list"
  body :: payload

datatype http_result =
    NetworkFailure js_string
  | Response nat js_string json

definition completion_request :: "LLMConfig \<Rightarrow> LLMMessage list \<Rightarrow> request" where
  "completion_request cfg messages =
     \<lparr> url = endpoint cfg,
       http_method = js ''POST'',
       headers =
         (js ''Content-Type'', js ''application/json'') #
         (case apiKey cfg of
            None \<Rightarrow> []
          | Some key \<Rightarrow> if key \<noteq> [] then [(js ''Authorization'', js ''Bearer '' @ key)] else []),
       body =
         \<lparr> p_model = cfg_model cfg,
           p_messages = messages,
           p_temperature = (case temperature cfg of None \<Rightarrow> 0.7 | Some t \<Rightarrow> t),
           p_max_tokens = (case cfg_maxTokens cfg of None \<Rightarrow> 2000 | Some n \<Rightarrow> n) \<rparr> \<rparr>"

text \<open>\<open>parseResponse\<close>: the \<open>try\<close> block, then the method with its \<open>catch\<close>.\<close>

definition invalid_format :: thrown where
  "invalid_format =
     JsError (js ''Error'') (js ''Invalid response format: missing choices or message'')"

definition parse_body :: "LLMConfig \<Rightarrow> json \<Rightarrow> thrown + LLMResponse" where
  "parse_body cfg data =
     and_then (get_member data (js ''choices'')) (\<lambda>choices.
       if \<not> truthy choices then Inl invalid_format else
     and_then (get_index choices 0) (\<lambda>first.
       if \<not> truthy first then Inl invalid_format else
     and_then (get_member first (js ''message'')) (\<lambda>message.
       if \<not> truthy message then Inl invalid_format else
     and_then (get_member message (js ''content'')) (\<lambda>text.
     and_then (get_member data (js ''usage'')) (\<lambda>usage.
     and_then (opt_member usage (js ''prompt_tokens'')) (\<lambda>prompt_tokens.
     and_then (opt_member usage (js ''completion_tokens'')) (\<lambda>completion_tokens.
     and_then (opt_member usage (js ''total_tokens'')) (\<lambda>total_tokens.
     and_then (get_member data (js ''model'')) (\<lambda>model.
     and_then (get_member first (js ''finish_reason'')) (\<lambda>finish_reason.
       Inr \<lparr> resp_content = text,
             promptTokens = js_or prompt_tokens (JNum 0),
             completionTokens = js_or completion_tokens (JNum 0),
             totalTokens = js_or total_tokens (JNum 0),
             resp_model = js_or model (JStr (cfg_model cfg)),
             finishReason = js_or finish_reason (JStr (js ''stop'')) \<rparr>))))))))))"

definition parseResponse :: "LLMConfig \<Rightarrow> json \<Rightarrow> thrown + LLMResponse" where
  "parseResponse cfg data =
     (case parse_body cfg data of
        Inr response \<Rightarrow> Inr response
      | Inl error \<Rightarrow>
          Inl (LLMError (js ''Failed to parse response: '' @ message_of error) PARSE_ERROR False
                 (Some (cfg_provider cfg)) None))"

text \<open>
  \<open>generateCompletion\<close> of the provider class, on its configuration (\<open>None\<close> before
  \<open>initialize\<close>) and the network.
\<close>

definition status_error :: "LLMConfig \<Rightarrow> nat \<Rightarrow> js_string \<Rightarrow> thrown" where
  "status_error cfg status text =
     (if status = 401 \<or> status = 403 then
        LLMError (js ''Authentication failed: '' @ decimal status) AUTHENTICATION_ERROR False
          (Some (cfg_provider cfg)) None
      else if status = 429 then
        LLMError (js ''Rate limit exceeded'') RATE_LIMIT True (Some (cfg_provider cfg)) None
      else if 500 \<le> status then
        LLMError (js ''Server error: '' @ decimal status) API_ERROR True
          (Some (cfg_provider cfg)) None
      else
        LLMError (js ''API error: '' @ decimal status @ js '' - '' @ text) API_ERROR False
          (Some (cfg_provider cfg)) None)"

definition openai_generateCompletion ::
  "LLMConfig option \<Rightarrow> (request \<Rightarrow> http_result) \<Rightarrow> LLMMessage list \<Rightarrow> thrown + LLMResponse" where
  "openai_generateCompletion config requestUrl messages =
     (case config of
        None \<Rightarrow> Inl (LLMError (js ''Provider not initialized'') INVALID_CONFIG False None None)
      | Some cfg \<Rightarrow>
          (case requestUrl (completion_request cfg messages) of
             NetworkFailure msg \<Rightarrow>
               Inl (LLMError (js ''Failed to generate completion: '' @ msg) NETWORK_ERROR True
                      (Some (cfg_provider cfg)) (Some (JsError (js ''Error'') msg)))
           | Response status text data \<Rightarrow>
               if status \<noteq> 200 then Inl (status_error cfg status text)
               else parseResponse cfg data))"

text \<open>
  The classification of section 4.3 of the specification, as a table from the HTTP
  outcome to what the call does: the type and retryable flag of the error it raises, or
  a normal return. The payload has \<open>choices[0].message\<close> when reading that path, with
  nothing read off \<open>null\<close> or \<open>undefined\<close>, ends in a truthy value.
\<close>

datatype verdict = Raises LLMErrorType bool | RaisesOther | Returns

fun verdict_of :: "thrown + LLMResponse \<Rightarrow> verdict" where
  "verdict_of (Inr response) = Returns"
| "verdict_of (Inl (LLMError msg ty retryable prov orig)) = Raises ty retryable"
| "verdict_of (Inl (JsError nm msg)) = RaisesOther"
| "verdict_of (Inl JsNull) = RaisesOther"

definition safe_member :: "json \<Rightarrow> js_string \<Rightarrow> json" where
  "safe_member v k = (case get_member v k of Inl error \<Rightarrow> JUndefined | Inr x \<Rightarrow> x)"

definition safe_index :: "json \<Rightarrow> nat \<Rightarrow> json" where
  "safe_index v i = (case get_index v i of Inl error \<Rightarrow> JUndefined | Inr x \<Rightarrow> x)"

definition has_message :: "json \<Rightarrow> bool" where
  "has_message data =
     truthy (safe_member (safe_index (safe_member data (js ''choices'')) 0) (js ''message''))"

definition error_classification :: "http_result \<Rightarrow> verdict" where
  "error_classification outcome =
     (case outcome of
        NetworkFailure msg \<Rightarrow> Raises NETWORK_ERROR True
      | Response status text data \<Rightarrow>
          if status = 401 \<or> status = 403 then Raises AUTHENTICATION_ERROR False
          else if status = 429 then Raises RATE_LIMIT True
          else if 500 \<le> status then Raises API_ERROR True
          else if status \<noteq> 200 then Raises API_ERROR False
          else if has_message data then Returns
          else Raises PARSE_ERROR False)"

section \<open>Prompt manager (prompt-manager.ts)\<close>

record PromptTemplate =
  tpl_name :: js_string
  description :: js_string
  systemPrompt :: js_string
  userPromptTemplate :: js_string
  variables :: "js_string list"

type_synonym templates = "js_string \<Rightarrow> PromptTemplate option"

definition registerTemplate :: "PromptTemplate \<Rightarrow> templates \<Rightarrow> templates" where
  "registerTemplate template ts = ts(tpl_name template := Some template)"

text \<open>
  \<open>varName in variables\<close> holds for the own keys of the object and for what every
  object inherits from \<open>Object.prototype\<close>. The variables are given as
  \<open>Object.entries\<close> lists them.
\<close>

definition object_prototype_members :: "js_string list" where
  "object_prototype_members =
     [js ''constructor'', js ''__defineGetter__'', js ''__defineSetter__'', js ''hasOwnProperty'',
      js ''__lookupGetter__'', js ''__lookupSetter__'', js ''isPrototypeOf'',
      js ''propertyIsEnumerable'', js ''toString'', js ''valueOf'', js ''__proto__'',
      js ''toLocaleString'']"

definition js_in :: "js_string \<Rightarrow> (js_string \<times> js_string) list \<Rightarrow> bool" where
  "js_in k entries = (k \<in> fst ` set entries \<or> k \<in> set object_prototype_members)"

text \<open>
  \<open>new RegExp(`{{${key}}}`, 'g')\<close> matches the text \<open>{{key}}\<close> literally when the key
  has no character that is special in a regular expression and \<open>{key}\<close> does not read
  as a quantifier (\<open>{2}\<close>, \<open>{2,}\<close>, \<open>{2,5}\<close>). For any other key the expression is left to
  the runtime's engine, which may also throw a SyntaxError.
\<close>

definition regex_special :: "nat \<Rightarrow> bool" where
  "regex_special c =
     (c = 92 \<or> c = 94 \<or> c = 36 \<or> c = 46 \<or> c = 124 \<or> c = 63 \<or> c = 42 \<or> c = 43
      \<or> c = 40 \<or> c = 41 \<or> c = 91 \<or> c = 93 \<or> c = 123 \<or> c = 125)"

definition is_digit :: "nat \<Rightarrow> bool" where
  "is_digit c = (48 \<le> c \<and> c \<le> 57)"

definition quantifier_body :: "js_string \<Rightarrow> bool" where
  "quantifier_body key =
     (takeWhile is_digit key \<noteq> []
      \<and> (case dropWhile is_digit key of
            [] \<Rightarrow> True
          | c # rest \<Rightarrow> c = 44 \<and> list_all is_digit rest))"

definition literal_key :: "js_string \<Rightarrow> bool" where
  "literal_key key = (\<not> list_ex regex_special key \<and> \<not> quantifier_body key)"

text \<open>
  The replacement text of \<open>String.prototype.replace\<close> for an expression without
  groups: \<open>$$\<close> stands for a dollar sign, \<open>$&\<close> for the match, \<open>$`\<close> for the text before
  it and \<open>$'\<close> for the text after it; any other character stands for itself.
\<close>

fun expand_replacement :: "js_string \<Rightarrow> js_string \<Rightarrow> js_string \<Rightarrow> js_string \<Rightarrow> js_string" where
  "expand_replacement [] matched pre post = []"
| "expand_replacement [c] matched pre post = [c]"
| "expand_replacement (c # d # rest) matched pre post =
     (if c = 36 \<and> d = 36 then 36 # expand_replacement rest matched pre post
      else if c = 36 \<and> d = 38 then matched @ expand_replacement rest matched pre post
      else if c = 36 \<and> d = 96 then pre @ expand_replacement rest matched pre post
      else if c = 36 \<and> d = 39 then post @ expand_replacement rest matched pre post
      else c # expand_replacement (d # rest) matched pre post)"

text \<open>
  \<open>s.replace(re, replacement)\<close> for a global expression that matches \<open>pat\<close> literally:
  one pass from the left over \<open>s\<close>, \<open>seen\<close> being the part of the subject already
  passed.
\<close>

function replace_from :: "js_string \<Rightarrow> js_string \<Rightarrow> js_string \<Rightarrow> js_string \<Rightarrow> js_string" where
  "replace_from pat replacement seen s =
     (if s = [] then []
      else if pat \<noteq> [] \<and> prefix pat s then
        expand_replacement replacement pat seen (drop (length pat) s)
          @ replace_from pat replacement (seen @ pat) (drop (length pat) s)
      else hd s # replace_from pat replacement (seen @ [hd s]) (tl s))"
  by pat_completeness auto
termination
  by (relation "measure (\<lambda>(pat, replacement, seen, s). length s)") auto

declare replace_from.simps [simp del]

definition replace_all_literal :: "js_string \<Rightarrow> js_string \<Rightarrow> js_string \<Rightarrow> js_string" where
  "replace_all_literal pat replacement s = replace_from pat replacement [] s"

definition replace_placeholder ::
  "js_runtime \<Rightarrow> js_string \<Rightarrow> js_string \<Rightarrow> js_string \<Rightarrow> thrown + js_string" where
  "replace_placeholder rt key v userPrompt =
     (if literal_key key
      then Inr (replace_all_literal (js ''{{'' @ key @ js ''}}'') v userPrompt)
      else regex_replace_all rt (js ''{{'' @ key @ js ''}}'') userPrompt v)"

fun substitute ::
  "js_runtime \<Rightarrow> js_string \<Rightarrow> (js_string \<times> js_string) list \<Rightarrow> thrown + js_string" where
  "substitute rt userPrompt [] = Inr userPrompt"
| "substitute rt userPrompt ((key, v) # rest) =
     (case replace_placeholder rt key v userPrompt of
        Inl error \<Rightarrow> Inl error
      | Inr replaced \<Rightarrow> substitute rt replaced rest)"

definition renderPrompt ::
  "js_runtime \<Rightarrow> templates \<Rightarrow> js_string \<Rightarrow> (js_string \<times> js_string) list
     \<Rightarrow> thrown + LLMMessage list" where
  "renderPrompt rt ts templateName vars =
     (case ts templateName of
        None \<Rightarrow> Inl (JsError (js ''Error'') (js ''Template '' @ templateName @ js '' not found''))
      | Some template \<Rightarrow>
          (case find (\<lambda>varName. \<not> js_in varName vars) (variables template) of
             Some varName \<Rightarrow>
               Inl (JsError (js ''Error'') (js ''Missing required variable: '' @ varName))
           | None \<Rightarrow>
               (case substitute rt (userPromptTemplate template) vars of
                  Inl error \<Rightarrow> Inl error
                | Inr userPrompt \<Rightarrow>
                    Inr [\<lparr> msg_role = js ''system'', msg_content = systemPrompt template \<rparr>,
                         \<lparr> msg_role = js ''user'', msg_content = userPrompt \<rparr>])))"

text \<open>
  What the specification says the user message is: the user template with every occurrence of
  \<open>{{key}}\<close>, for a key of the variables, replaced by the value of that key, reading the
  template once from the left.
\<close>

fun placeholder_at :: "(js_string \<times> js_string) list \<Rightarrow> js_string \<Rightarrow> (js_string \<times> js_string) option" where
  "placeholder_at [] s = None"
| "placeholder_at ((key, v) # rest) s =
     (if prefix (js ''{{'' @ key @ js ''}}'') s then Some (key, v) else placeholder_at rest s)"

function substituted :: "(js_string \<times> js_string) list \<Rightarrow> js_string \<Rightarrow> js_string" where
  "substituted vars s =
     (if s = [] then []
      else (case placeholder_at vars s of
              Some (key, v) \<Rightarrow> v @ substituted vars (drop (length key + 4) s)
            | None \<Rightarrow> hd s # substituted vars (tl s)))"
  by pat_completeness auto
termination
  by (relation "measure (\<lambda>(vars, s). length s)") auto

declare substituted.simps [simp del]

text \<open>A template store with one small template, for concrete renderings.\<close>

definition question_template :: PromptTemplate where
  "question_template =
     \<lparr> tpl_name = js ''ask'', description = js ''Ask about the content'',
       systemPrompt = js ''You are a tutor.'',
       userPromptTemplate = js ''Content: {{content}}'',
       variables = [js ''content''] \<rparr>"

definition one_template :: templates where
  "one_template = registerTemplate question_template (\<lambda>name. None)"

section \<open>Multi-pass generator (multi-pass-generator.ts)\<close>

record GeneratedCard =
  card_type :: js_string
  card_front :: js_string
  card_back :: js_string
  tags :: "js_string list option"
  confidence :: "real option"

text \<open>
  \<open>calculateBatchQuality\<close>. \<open>card.confidence || 0.8\<close> takes 0.8 for a missing confidence
  and for the confidence 0, which is falsy.
\<close>

definition confidence_or_default :: "GeneratedCard \<Rightarrow> real" where
  "confidence_or_default gc =
     (case confidence gc of None \<Rightarrow> 0.8 | Some c \<Rightarrow> if c = 0 then 0.8 else c)"

definition calculateBatchQuality :: "GeneratedCard list \<Rightarrow> real" where
  "calculateBatchQuality cards =
     (if length cards = 0 then 0
      else
        (let avgConfidence =
               fold (\<lambda>gc acc. acc + confidence_or_default gc) cards 0 / real (length cards);
             countPenalty = (if length cards < 2 then 0.8 else if 10 < length cards then 0.9 else 1.0)
         in avgConfidence * countPenalty))"

text \<open>
  The batch quality in the words of the specification: the arithmetic mean of the
  confidences, 0.8 standing in for a card that specifies none, times the count penalty.
\<close>

definition stated_confidence :: "GeneratedCard \<Rightarrow> real" where
  "stated_confidence gc = (case confidence gc of None \<Rightarrow> 0.8 | Some c \<Rightarrow> c)"

definition stated_batch_quality :: "GeneratedCard list \<Rightarrow> real" where
  "stated_batch_quality cards =
     (sum_list (map stated_confidence cards) / real (length cards))
       * (if length cards < 2 then 0.8 else if 10 < length cards then 0.9 else 1.0)"

definition basic_card :: "real option \<Rightarrow> GeneratedCard" where
  "basic_card c =
     \<lparr> card_type = js ''basic'', card_front = js ''Q'', card_back = js ''A'', tags = None,
       confidence = c \<rparr>"

text \<open>
  \<open>parseCardResponse\<close>. The cards come out of \<open>JSON.parse\<close> and an object spread, so a
  card is a value of type \<open>any\<close>: an object whose members are the five defaults
  overwritten by the source card's own members. The list keeps the members in the
  order of insertion; JavaScript enumerates integer-like keys (those a spread array or
  string brings) before the others. Members are read by name only, never in order.
\<close>

definition obj_set :: "(js_string \<times> json) list \<Rightarrow> js_string \<Rightarrow> json \<Rightarrow> (js_string \<times> json) list" where
  "obj_set members k v =
     (if k \<in> fst ` set members then map (\<lambda>(k', v'). if k' = k then (k', v) else (k', v')) members
      else members @ [(k, v)])"

fun own_entries :: "json \<Rightarrow> (js_string \<times> json) list" where
  "own_entries (JObj members) = members"
| "own_entries (JArr xs) = zip (map decimal [0..<length xs]) xs"
| "own_entries (JStr s) = zip (map decimal [0..<length s]) (map (\<lambda>c. JStr [c]) s)"
| "own_entries v = []"

definition spread :: "(js_string \<times> json) list \<Rightarrow> json \<Rightarrow> (js_string \<times> json) list" where
  "spread members v = fold (\<lambda>(k, x) ms. obj_set ms k x) (own_entries v) members"

definition build_card :: "json \<Rightarrow> thrown + json" where
  "build_card src =
     and_then (get_member src (js ''type'')) (\<lambda>ty.
     and_then (get_member src (js ''front'')) (\<lambda>fr.
     and_then (get_member src (js ''back'')) (\<lambda>bk.
     and_then (get_member src (js ''tags'')) (\<lambda>tg.
     and_then (get_member src (js ''confidence'')) (\<lambda>cf.
       Inr (JObj (spread
         [(js ''type'', js_or ty (JStr (js ''basic''))),
          (js ''front'', js_or fr (JStr [])),
          (js ''back'', js_or bk (JStr [])),
          (js ''tags'', js_or tg (JArr [])),
          (js ''confidence'', js_or cf (JNum 0.8))]
         src)))))))"

fun map_throwing :: "('a \<Rightarrow> thrown + 'b) \<Rightarrow> 'a list \<Rightarrow> thrown + 'b list" where
  "map_throwing f [] = Inr []"
| "map_throwing f (x # xs) =
     (case f x of
        Inl error \<Rightarrow> Inl error
      | Inr y \<Rightarrow> (case map_throwing f xs of Inl error \<Rightarrow> Inl error | Inr ys \<Rightarrow> Inr (y # ys)))"

text \<open>
  The three lines every parser of model output starts with: the \<open>match\<close> (a TypeError
  on a response that is not a string), the choice of the fenced text or the whole
  response, and \<open>JSON.parse\<close>.
\<close>

definition extract_json :: "js_runtime \<Rightarrow> json \<Rightarrow> thrown + json" where
  "extract_json rt response =
     (case response of
        JStr s \<Rightarrow>
          (case JSON_parse rt (case regex_group1 rt JsonFenceRe s of Some g \<Rightarrow> g | None \<Rightarrow> s) of
             None \<Rightarrow> Inl (JsError (js ''SyntaxError'') (js ''Unexpected token''))
           | Some parsed \<Rightarrow> Inr parsed)
      | _ \<Rightarrow> Inl (type_error (js ''response.match is not a function'')))"

record card_result =
  cards :: "json list"
  sectionSummary :: json

definition card_body :: "js_runtime \<Rightarrow> json \<Rightarrow> thrown + card_result" where
  "card_body rt response =
     and_then (extract_json rt response) (\<lambda>parsed.
     and_then (get_member parsed (js ''cards'')) (\<lambda>cs.
     and_then (case js_or cs (JArr []) of
                 JArr xs \<Rightarrow> map_throwing build_card xs
               | _ \<Rightarrow> Inl (type_error (js ''map is not a function''))) (\<lambda>built.
     and_then (get_member parsed (js ''sectionSummary'')) (\<lambda>summ.
       Inr \<lparr> cards = built, sectionSummary = js_or summ (JStr []) \<rparr>))))"

definition parseCardResponse :: "js_runtime \<Rightarrow> json \<Rightarrow> card_result" where
  "parseCardResponse rt response =
     (case card_body rt response of
        Inr result \<Rightarrow> result
      | Inl error \<Rightarrow> \<lparr> cards = [], sectionSummary = JStr [] \<rparr>)"

text \<open>The confidence a produced card carries: its member \<open>confidence\<close>.\<close>

definition carried_confidence :: "json \<Rightarrow> json" where
  "carried_confidence built = safe_member built (js ''confidence'')"

text \<open>
  The quality of a batch of such cards: \<open>calculateBatchQuality\<close> on their confidences
  when each is a number or falsy. When one is a truthy value that is not a number, the
  result is what JavaScript's \<open>+\<close> and \<open>/\<close> make of mixed types, which is not modelled
  (\<open>None\<close>); nothing below reads the quality.
\<close>

definition typed_card :: "json \<Rightarrow> GeneratedCard" where
  "typed_card built =
     \<lparr> card_type = [], card_front = [], card_back = [], tags = None,
       confidence = (case carried_confidence built of JNum x \<Rightarrow> Some x | _ \<Rightarrow> None) \<rparr>"

fun numeric_or_falsy :: "json \<Rightarrow> bool" where
  "numeric_or_falsy (JNum x) = True"
| "numeric_or_falsy v = (\<not> truthy v)"

definition batch_quality :: "json list \<Rightarrow> real option" where
  "batch_quality cs =
     (if list_all (\<lambda>c. numeric_or_falsy (carried_confidence c)) cs
      then Some (calculateBatchQuality (map typed_card cs)) else None)"

text \<open>The stream of the generator: progress events and card batches.\<close>

datatype phase = planning | analyzing | generating | validating | completed

record GenerationProgress =
  phase :: phase
  progress_chunk :: "nat option"
  progress_total :: "nat option"
  cardsGenerated :: nat
  message :: js_string

record CardBatch =
  chunkId :: nat
  batch_heading :: js_string
  batch_cards :: "json list"
  summary :: json
  quality :: "real option"

datatype item = Progress GenerationProgress | Batch CardBatch

record DocumentPlan =
  overview :: json
  mainTopics :: json
  sections :: json
  totalEstimatedCards :: json

record generation_options =
  maxCards :: "nat option"
  minQuality :: "real option"

text \<open>
  \<open>createOverview\<close> of the chunker. \<open>'  '.repeat(level - 1)\<close> throws a RangeError for a
  chunk of level 0, and every chunk under the heading \<open>Introduction\<close> has level 0.
\<close>

definition range_error :: thrown where
  "range_error = JsError (js ''RangeError'') (js ''Invalid count value: -1'')"

definition overview_line :: "DocumentChunk \<Rightarrow> thrown + js_string" where
  "overview_line chunk =
     (if level chunk = 0 then Inl range_error
      else Inr (replicate (2 * (level chunk - 1)) 32 @ js ''- '' @ heading chunk))"

definition createOverview :: "DocumentChunk list \<Rightarrow> thrown + js_string" where
  "createOverview cs =
     (case map_throwing overview_line (filter (\<lambda>chunk. level chunk \<le> 2) cs) of
        Inl error \<Rightarrow> Inl error
      | Inr headings \<Rightarrow> Inr (js ''Document Structure:'' @ newline @ join_with newline headings))"

text \<open>
  \<open>prioritizeChunks\<close>: \<open>Array.prototype.sort\<close> is stable, and it sorts the array of
  chunks in place, so \<open>createOverview\<close> afterwards sees the sorted array.
\<close>

definition prioritizeChunks :: "DocumentChunk list \<Rightarrow> DocumentChunk list" where
  "prioritizeChunks cs = sort_key (\<lambda>chunk. - importance chunk) cs"

text \<open>\<open>createDocumentSummary\<close>, \<open>parseAnalysisResponse\<close> and \<open>analyzeDocument\<close>.\<close>

definition createDocumentSummary :: "js_runtime \<Rightarrow> js_string \<Rightarrow> js_string" where
  "createDocumentSummary rt text =
     (let (headings, samples) =
            fold (\<lambda>line (headings, samples).
                    if regex_test rt HeadingStartRe line then (headings @ [line], samples)
                    else if length samples < 10 \<and> 50 < length (js_trim line)
                         then (headings, samples @ [line])
                    else (headings, samples))
                 (split_on 10 text) ([], [])
      in join_with newline headings @ newline @ newline @ join_with newline samples)"

definition estimated_total :: "js_runtime \<Rightarrow> json \<Rightarrow> thrown + json" where
  "estimated_total rt secs =
     (case secs of
        JUndefined \<Rightarrow> Inr JUndefined
      | JNull \<Rightarrow> Inr JUndefined
      | JArr xs \<Rightarrow>
          fold (\<lambda>s acc. and_then acc (\<lambda>subtotal.
                  and_then (get_member s (js ''estimatedCards'')) (\<lambda>e.
                    js_add rt subtotal (js_or e (JNum 3)))))
               xs (Inr (JNum 0))
      | _ \<Rightarrow> Inl (type_error (js ''reduce is not a function'')))"

definition plan_body :: "js_runtime \<Rightarrow> json \<Rightarrow> thrown + DocumentPlan" where
  "plan_body rt response =
     and_then (extract_json rt response) (\<lambda>parsed.
     and_then (get_member parsed (js ''overview'')) (\<lambda>ov.
     and_then (get_member parsed (js ''mainTopics'')) (\<lambda>topics.
     and_then (get_member parsed (js ''sections'')) (\<lambda>secs.
     and_then (estimated_total rt secs) (\<lambda>estimate.
       Inr \<lparr> overview = js_or ov (JStr (js ''Document'')),
             mainTopics = js_or topics (JArr []),
             sections = js_or secs (JArr []),
             totalEstimatedCards = js_or estimate (JNum 10) \<rparr>)))))"

definition parseAnalysisResponse :: "js_runtime \<Rightarrow> json \<Rightarrow> DocumentPlan" where
  "parseAnalysisResponse rt response =
     (case plan_body rt response of
        Inr plan \<Rightarrow> plan
      | Inl error \<Rightarrow>
          \<lparr> overview = JStr (js ''Document''), mainTopics = JArr [], sections = JArr [],
            totalEstimatedCards = JNum 10 \<rparr>)"

definition default_plan :: DocumentPlan where
  "default_plan =
     \<lparr> overview = JStr (js ''Document analysis''), mainTopics = JArr [], sections = JArr [],
       totalEstimatedCards = JNum 10 \<rparr>"

definition analyzeDocument ::
  "js_runtime \<Rightarrow> templates \<Rightarrow> LLMRouter \<Rightarrow> js_string \<Rightarrow> event list \<Rightarrow> DocumentPlan \<times> event list" where
  "analyzeDocument rt ts r text tr =
     (let analysisContent = (if 10000 < length text then createDocumentSummary rt text else text)
      in case renderPrompt rt ts (js ''analyze_document'') [(js ''content'', analysisContent)] of
           Inl error \<Rightarrow> (default_plan, tr)
         | Inr messages \<Rightarrow>
             (case generate r messages None tr of
                (Inl error, tr') \<Rightarrow> (default_plan, tr')
              | (Inr response, tr') \<Rightarrow> (parseAnalysisResponse rt (resp_content response), tr')))"

text \<open>
  \<open>generateCardsForChunk\<close>. The document topic and the previous summary come out of
  parsed model output, so they are values of type \<open>any\<close>; \<open>replace\<close> in \<open>renderPrompt\<close>
  turns a truthy one that is not a string into a string (\<open>ToString\<close>, which may throw)
  and a falsy one into the empty string.
\<close>

definition template_value :: "js_runtime \<Rightarrow> json \<Rightarrow> thrown + js_string" where
  "template_value rt v =
     (if \<not> truthy v then Inr []
      else (case v of JStr s \<Rightarrow> Inr s | _ \<Rightarrow> ToString rt v))"

definition generateCardsForChunk ::
  "js_runtime \<Rightarrow> templates \<Rightarrow> LLMRouter \<Rightarrow> DocumentChunk \<Rightarrow> json \<Rightarrow> json \<Rightarrow> event list
     \<Rightarrow> (thrown + CardBatch) \<times> event list" where
  "generateCardsForChunk rt ts r chunk documentTopic previousSummary tr =
     (case and_then (template_value rt documentTopic) (\<lambda>topic.
           and_then (template_value rt
                       (js_or previousSummary (JStr (js ''This is the first section.'')))) (\<lambda>prev.
             renderPrompt rt ts (js ''generate_cards_enhanced'')
               [(js ''documentTopic'', topic), (js ''sectionPath'', heading chunk),
                (js ''previousSummary'', prev), (js ''content'', content chunk)])) of
        Inl error \<Rightarrow> (Inl error, tr)
      | Inr messages \<Rightarrow>
          (case generate r messages None tr of
             (Inl error, tr') \<Rightarrow> (Inl error, tr')
           | (Inr response, tr') \<Rightarrow>
               (let result = parseCardResponse rt (resp_content response)
                in (Inr \<lparr> chunkId = chunk_id chunk,
                          batch_heading = heading chunk,
                          batch_cards = cards result,
                          summary = js_or (sectionSummary result) (JStr []),
                          quality = batch_quality (cards result) \<rparr>, tr'))))"

text \<open>
  The loop of pass 3 from chunk \<open>i\<close> on: the items it yields, the final
  \<open>totalCardsGenerated\<close> and the trace.
\<close>

definition generating_event :: "nat \<Rightarrow> nat \<Rightarrow> nat \<Rightarrow> DocumentChunk \<Rightarrow> item" where
  "generating_event i n made chunk =
     Progress \<lparr> phase = generating, progress_chunk = Some (i + 1), progress_total = Some n,
                cardsGenerated = made,
                message = js ''Generating cards for: '' @ heading chunk \<rparr>"

fun generate_loop ::
  "js_runtime \<Rightarrow> templates \<Rightarrow> LLMRouter \<Rightarrow> DocumentPlan \<Rightarrow> nat \<Rightarrow> nat \<Rightarrow> nat
     \<Rightarrow> DocumentChunk list \<Rightarrow> json \<Rightarrow> nat \<Rightarrow> event list \<Rightarrow> item list \<times> nat \<times> event list" where
  "generate_loop rt ts r plan cap n i [] previousSummary made tr = ([], made, tr)"
| "generate_loop rt ts r plan cap n i (chunk # rest) previousSummary made tr =
     (if \<not> made < cap then ([], made, tr)
      else
        (case generateCardsForChunk rt ts r chunk (overview plan) previousSummary tr of
           (Inl error, tr') \<Rightarrow>
             (case generate_loop rt ts r plan cap n (i + 1) rest previousSummary made tr' of
                (items, made', tr'') \<Rightarrow> (generating_event i n made chunk # items, made', tr''))
         | (Inr batch, tr') \<Rightarrow>
             (if cap \<le> made + length (batch_cards batch)
              then ([generating_event i n made chunk, Batch batch],
                    made + length (batch_cards batch), tr')
              else
                (case generate_loop rt ts r plan cap n (i + 1) rest (summary batch)
                        (made + length (batch_cards batch)) tr' of
                   (items, made', tr'') \<Rightarrow>
                     (generating_event i n made chunk # Batch batch # items, made', tr'')))))"

text \<open>
  \<open>generateCardsMultiPass\<close>, pulled to its end: the items yielded, how the generator
  ended (it returned, or a throw left it), and the trace of the router.
\<close>

datatype run_end = Returned | Escaped thrown

definition planning_event :: item where
  "planning_event =
     Progress \<lparr> phase = planning, progress_chunk = None, progress_total = None,
                cardsGenerated = 0, message = js ''Analyzing document structure...'' \<rparr>"

definition analyzing_event :: item where
  "analyzing_event =
     Progress \<lparr> phase = analyzing, progress_chunk = None, progress_total = None,
                cardsGenerated = 0, message = js ''Breaking document into sections...'' \<rparr>"

definition completed_event :: "nat \<Rightarrow> item" where
  "completed_event made =
     Progress \<lparr> phase = completed, progress_chunk = None, progress_total = None,
                cardsGenerated = made,
                message = js ''Generated '' @ decimal made @ js '' cards successfully!'' \<rparr>"

definition generateCardsMultiPass ::
  "js_runtime \<Rightarrow> templates \<Rightarrow> LLMRouter \<Rightarrow> js_string \<Rightarrow> generation_options option \<Rightarrow> event list
     \<Rightarrow> item list \<times> run_end \<times> event list" where
  "generateCardsMultiPass rt ts r text options tr =
     (let cap = or_default (case options of None \<Rightarrow> None | Some opts \<Rightarrow> maxCards opts) 50;
          (plan, tr1) = analyzeDocument rt ts r text tr;
          cs = chunkDocument rt text (Some \<lparr> maxTokens = Some 1500, minTokens = Some 200 \<rparr>);
          sortedChunks = prioritizeChunks cs
      in case createOverview sortedChunks of
           Inl error \<Rightarrow> ([planning_event, analyzing_event], Escaped error, tr1)
         | Inr outline \<Rightarrow>
             (case generate_loop rt ts r plan cap (length sortedChunks) 0 sortedChunks (JStr []) 0 tr1 of
                (items, made, tr2) \<Rightarrow>
                  ([planning_event, analyzing_event] @ items @ [completed_event made],
                   Returned, tr2)))"

text \<open>
  The source cards of a response: the array \<open>parsed.cards || []\<close> that
  \<open>parseCardResponse\<close> maps over, when the response is a string, \<open>JSON.parse\<close> accepts
  it, and \<open>cards\<close> is an array or falsy. A source card that is \<open>null\<close> or \<open>undefined\<close>
  makes the arrow function throw.
\<close>

definition source_cards :: "js_runtime \<Rightarrow> json \<Rightarrow> json list option" where
  "source_cards rt response =
     (case extract_json rt response of
        Inl error \<Rightarrow> None
      | Inr parsed \<Rightarrow>
          (case get_member parsed (js ''cards'') of
             Inl error \<Rightarrow> None
           | Inr cs \<Rightarrow> (case js_or cs (JArr []) of JArr xs \<Rightarrow> Some xs | _ \<Rightarrow> None)))"

fun is_nullish :: "json \<Rightarrow> bool" where
  "is_nullish JNull = True"
| "is_nullish JUndefined = True"
| "is_nullish v = False"

text \<open>
  The member \<open>confidence\<close> a source card has of its own, if any (in a list of members
  that names a key twice the later member counts, as in a spread); and a runtime whose
  \<open>JSON.parse\<close> knows one text, a batch with one card of confidence 5.
\<close>

fun own_confidence :: "json \<Rightarrow> json option" where
  "own_confidence (JObj members) = map_of (rev members) (js ''confidence'')"
| "own_confidence v = None"

definition overconfident_text :: js_string where
  "overconfident_text =
     js ''{'' @ 34 # js ''cards'' @ 34 # js '':[{'' @ 34 # js ''confidence'' @ 34 # js '':5}]}''"

definition overconfident_runtime :: js_runtime where
  "overconfident_runtime =
     quiet_runtime
       \<lparr> JSON_parse := (\<lambda>s. if s = overconfident_text
                              then Some (JObj [(js ''cards'', JArr [JObj [(js ''confidence'', JNum 5)]])])
                              else None) \<rparr>"

text \<open>A runtime whose \<open>JSON.parse\<close> knows a batch of two cards, one without a confidence.\<close>

definition two_card_text :: js_string where
  "two_card_text =
     js ''{'' @ 34 # js ''cards'' @ 34 # js '':[{'' @ 34 # js ''front'' @ 34 # js '':'' @ 34 # js ''Q''
       @ 34 # js ''},{'' @ 34 # js ''confidence'' @ 34 # js '':0.3}]}''"

definition two_card_runtime :: js_runtime where
  "two_card_runtime =
     quiet_runtime
       \<lparr> JSON_parse := (\<lambda>s. if s = two_card_text
                              then Some (JObj [(js ''cards'',
                                     JArr [JObj [(js ''front'', JStr (js ''Q''))],
                                           JObj [(js ''confidence'', JNum 0.3)]])])
                              else None) \<rparr>"

text \<open>The number of cards an item of the stream brings.\<close>

fun batch_size :: "item \<Rightarrow> nat" where
  "batch_size (Batch batch) = length (batch_cards batch)"
| "batch_size (Progress p) = 0"

section \<open>Properties of the chunker\<close>

subsection \<open>Split points and lines\<close>

lemma upper_half_mem: "i \<in> set (upper_half n) \<Longrightarrow> n div 2 < i \<and> i < n"
  by (auto simp: upper_half_def)

lemma findSplitPoint_le: "findSplitPoint ls \<le> length ls"
  unfolding findSplitPoint_def
  by (auto split: option.splits dest!: find_Some_iff[THEN iffD1] simp: upper_half_def nth_append rev_nth)

lemma findSplitPoint_pos: "(0 < findSplitPoint ls) = (2 \<le> length ls)"
proof (cases "find (\<lambda>i. js_trim (ls ! i) = []) (upper_half (length ls))")
  case (Some i)
  then have "i \<in> set (upper_half (length ls))" by (auto simp: find_Some_iff)
  then have "length ls div 2 < i \<and> i < length ls" by (rule upper_half_mem)
  with Some show ?thesis by (simp add: findSplitPoint_def) 
next
  case None
  show ?thesis
  proof (cases "find (\<lambda>i. ends_sentence (ls ! i)) (upper_half (length ls))")
    case (Some i)
    then have "i \<in> set (upper_half (length ls))" by (auto simp: find_Some_iff)
    then have "length ls div 2 < i \<and> i < length ls" by (rule upper_half_mem)
    with None Some show ?thesis by (simp add: findSplitPoint_def)
  next
    case N2: None
    with None show ?thesis by (simp add: findSplitPoint_def) arith
  qed
qed

lemma split_on_no_sep: "d \<notin> set s \<Longrightarrow> split_on d s = [s]"
  by (induction s) auto

lemma split_on_nonempty: "split_on d s \<noteq> []"
  by (induction s) (auto split: list.splits)

lemma estimate_gt: "4 * m < length s \<Longrightarrow> m < estimateTokens s"
  by (simp add: estimateTokens_def)

lemma single_line_run:
  assumes nl: "10 \<notin> set line" and hm: "heading_match line = None"
    and big: "maxT \<le> estimateTokens line" and ok: "minT \<le> 2 * estimateTokens line"
  shows "chunks (chunk_lines rt maxT minT (split_on 10 line)) =
           [new_chunk rt (initial_chunker\<lparr>currentChunk := [line]\<rparr>) line 0]"
proof -
  have sp: "findSplitPoint [line] = 0"
    using findSplitPoint_pos[of "[line]"] by simp
  have step: "chunk_step rt maxT minT 0 line initial_chunker = initial_chunker\<lparr>currentChunk := [line]\<rparr>"
    using hm big sp by (simp add: chunk_step_def body_line_def initial_chunker_def)
  have ini: "chunks initial_chunker = []" by (simp add: initial_chunker_def)
  show ?thesis
    using ok by (simp add: chunk_lines_def split_on_no_sep[OF nl] step final_flush_def ini)
qed


subsection \<open>The loop invariant\<close>

lemma initial_inv: "chunker_inv minT [] initial_chunker"
  by (simp add: chunker_inv_def initial_chunker_def)

lemma heading_match_level: "heading_match line = Some m \<Longrightarrow> 1 \<le> length (fst m) \<and> length (fst m) \<le> 6"
  by (auto simp: heading_match_def Let_def Suc_le_eq split: if_splits)

lemma heading_line_inv:
  assumes "chunker_inv minT consumed s" and "heading_match line = Some m"
  shows "chunker_inv minT (consumed @ [line]) (heading_line rt minT i line m s)"
  using assms heading_match_level[OF assms(2)]
  by (auto simp: chunker_inv_def heading_line_def Let_def new_chunk_def)

lemma body_line_inv:
  assumes "chunker_inv minT consumed s"
  shows "chunker_inv minT (consumed @ [line]) (body_line rt maxT line s)"
proof -
  let ?cc = "currentChunk s @ [line]"
  have le: "findSplitPoint ?cc \<le> length ?cc" by (rule findSplitPoint_le)
  show ?thesis
    using assms le
    by (auto simp: chunker_inv_def body_line_def Let_def new_chunk_def simp del: take_append drop_append)
qed

lemma chunk_step_inv:
  "chunker_inv minT consumed s \<Longrightarrow> chunker_inv minT (consumed @ [line]) (chunk_step rt maxT minT i line s)"
  by (simp add: chunk_step_def heading_line_inv body_line_inv split: option.splits)

lemma chunk_loop_inv:
  "chunker_inv minT consumed s \<Longrightarrow> chunker_inv minT (consumed @ lines) (chunk_loop rt maxT minT i lines s)"
proof (induction lines arbitrary: consumed s i)
  case Nil
  then show ?case by simp
next
  case (Cons line rest)
  from Cons.IH[OF chunk_step_inv[OF Cons.prems]]
  show ?case by simp
qed

lemma fold_bonus_ge: "(x::real) \<le> fold (\<lambda>k sc. if P k then sc + 0.05 else sc) ks x"
proof (induction ks arbitrary: x)
  case Nil
  show ?case by simp
next
  case (Cons k ks)
  have "x \<le> (if P k then x + 0.05 else x)" by simp
  also have "\<dots> \<le> fold (\<lambda>k sc. if P k then sc + 0.05 else sc) ks (if P k then x + 0.05 else x)"
    by (rule Cons.IH)
  finally show ?case by simp
qed

lemma calculateImportance_bounds:
  assumes "lvl \<le> 6"
  shows "0 \<le> calculateImportance rt text lvl \<and> calculateImportance rt text lvl \<le> 1"
proof -
  define P where "P = (\<lambda>k. js_includes (toLowerCase rt text) k)"
  define b where "b = (1/2::real) + (6 - real lvl) * 0.05"
  define c where "c = (if regex_test rt DefinitionRe text then b + 0.15 else b)"
  define d where "d = (if regex_test rt ListMarkerRe text then c + 0.1 else c)"
  define e where "e = (if regex_test rt CodeFenceRe text then d + 0.1 else d)"
  define f where "f = e + min (real (length (regex_match_all rt EmphasisRe text)) * 0.02) 0.1"
  have eq: "calculateImportance rt text lvl
          = min (fold (\<lambda>k sc. if P k then sc + 0.05 else sc) importantKeywords f) 1"
    by (simp add: calculateImportance_def Let_def P_def b_def c_def d_def e_def f_def)
  have "1/2 \<le> b" using assms by (simp add: b_def)
  also have "b \<le> c" by (simp add: c_def)
  also have "c \<le> d" by (simp add: d_def)
  also have "d \<le> e" by (simp add: e_def)
  also have "e \<le> f" by (simp add: f_def)
  also have "f \<le> fold (\<lambda>k sc. if P k then sc + 0.05 else sc) importantKeywords f"
    by (rule fold_bonus_ge)
  finally have "1/2 \<le> fold (\<lambda>k sc. if P k then sc + 0.05 else sc) importantKeywords f" .
  then show ?thesis by (simp add: eq)
qed

lemma chunk_step_inv2:
  "importance_inv s \<Longrightarrow> importance_inv (chunk_step rt maxT minT i line s)"
  by (auto simp: importance_inv_def chunk_step_def heading_line_def body_line_def Let_def new_chunk_def
      calculateImportance_bounds split: option.splits dest: heading_match_level)

lemma chunk_loop_inv2:
  "importance_inv s \<Longrightarrow> importance_inv (chunk_loop rt maxT minT i lines s)"
  by (induction lines arbitrary: s i) (auto simp: chunk_step_inv2)

lemma chunk_lines_importance:
  "list_all (\<lambda>c. 0 \<le> importance c \<and> importance c \<le> 1) (chunks (chunk_lines rt maxT minT lines))"
proof -
  have "importance_inv (chunk_loop rt maxT minT 0 lines initial_chunker)"
    by (rule chunk_loop_inv2) (simp add: importance_inv_def initial_chunker_def)
  then show ?thesis
    by (auto simp: chunk_lines_def final_flush_def importance_inv_def Let_def new_chunk_def calculateImportance_bounds)
qed

lemma chunk_lines_props:
  fixes rt maxT minT lines
  defines "s \<equiv> chunk_lines rt maxT minT lines"
  shows "concat (map segment_lines (log s)) = lines"
    and "map content (chunks s) = map (\<lambda>seg. join_with newline (segment_lines seg)) (filter is_pushed (log s))"
    and "list_all (\<lambda>c. tokenCount c = estimateTokens (content c) \<and> level c \<le> 6) (chunks s)"
    and "list_all (\<lambda>seg. segment_ok minT seg \<and> segment_lines seg \<noteq> []) (log s)"
    and "list_all (\<lambda>seg. segment_site seg \<noteq> AtEnd) (butlast (log s))"
proof -
  have inv: "chunker_inv minT lines (chunk_loop rt maxT minT 0 lines initial_chunker)"
    using chunk_loop_inv[OF initial_inv, of minT lines rt maxT 0] by simp
  show "concat (map segment_lines (log s)) = lines"
    using inv by (auto simp: s_def chunk_lines_def final_flush_def chunker_inv_def Let_def)
  show "map content (chunks s) = map (\<lambda>seg. join_with newline (segment_lines seg)) (filter is_pushed (log s))"
    using inv by (auto simp: s_def chunk_lines_def final_flush_def chunker_inv_def Let_def new_chunk_def)
  show "list_all (\<lambda>c. tokenCount c = estimateTokens (content c) \<and> level c \<le> 6) (chunks s)"
    using inv by (auto simp: s_def chunk_lines_def final_flush_def chunker_inv_def Let_def new_chunk_def)
  show "list_all (\<lambda>seg. segment_ok minT seg \<and> segment_lines seg \<noteq> []) (log s)"
    using inv by (auto simp: s_def chunk_lines_def final_flush_def chunker_inv_def Let_def list_all_iff)
  show "list_all (\<lambda>seg. segment_site seg \<noteq> AtEnd) (butlast (log s))"
    using inv by (auto simp: s_def chunk_lines_def final_flush_def chunker_inv_def Let_def list_all_iff dest: in_set_butlastD)
qed

lemma or_default_pos: "0 < d \<Longrightarrow> 0 < or_default x d"
  by (cases x) auto

lemma minTokens_of_pos: "0 < minTokens_of options"
  by (simp add: minTokens_of_def DEFAULT_MIN_TOKENS_def or_default_pos)

lemma maxTokens_of_pos: "0 < maxTokens_of options"
  by (simp add: maxTokens_of_def DEFAULT_MAX_TOKENS_def or_default_pos)

lemma empty_text_no_chunks: "chunkDocument rt [] options = []"
proof -
  have hm: "heading_match [] = None" by (simp add: heading_match_def)
  have step: "chunk_step rt (maxTokens_of options) (minTokens_of options) 0 [] initial_chunker
                = initial_chunker\<lparr>currentChunk := [[]]\<rparr>"
    using maxTokens_of_pos[of options]
    by (simp add: chunk_step_def hm body_line_def initial_chunker_def estimateTokens_def)
  have ini: "chunks initial_chunker = []" by (simp add: initial_chunker_def)
  show ?thesis
    using minTokens_of_pos[of options]
    by (simp add: chunkDocument_def chunker_run_def chunk_lines_def step final_flush_def
        estimateTokens_def ini)
qed

lemma pushed_floor:
  "is_pushed seg \<Longrightarrow> segment_ok minT seg \<Longrightarrow> site_floor minT (segment_site seg) (segment_tokens seg)"
  by (cases seg; cases "segment_site seg") (auto simp: segment_tokens_def)

lemma butlast_filter_subset: "x \<in> set (butlast (filter P xs)) \<Longrightarrow> x \<in> set (butlast xs)"
proof (induction xs)
  case Nil
  then show ?case by simp
next
  case (Cons a xs)
  show ?case
  proof (cases "P a")
    case True
    with Cons show ?thesis by (cases "filter P xs = []") (auto split: if_splits)
  next
    case False
    with Cons show ?thesis by (auto split: if_splits)
  qed
qed

lemma chunk_lines_floor:
  fixes rt maxT minT lines
  defines "s \<equiv> chunk_lines rt maxT minT lines"
  shows "list_all2 (\<lambda>st c. site_floor minT st (tokenCount c)) (pushed_sites (log s)) (chunks s)"
proof -
  let ?ps = "filter is_pushed (log s)"
  have c: "map content (chunks s) = map (\<lambda>seg. join_with newline (segment_lines seg)) ?ps"
    unfolding s_def by (rule chunk_lines_props(2))
  have t: "list_all (\<lambda>c. tokenCount c = estimateTokens (content c) \<and> level c \<le> 6) (chunks s)"
    unfolding s_def by (rule chunk_lines_props(3))
  have ok: "list_all (\<lambda>seg. segment_ok minT seg \<and> segment_lines seg \<noteq> []) (log s)"
    unfolding s_def by (rule chunk_lines_props(4))
  have len: "length (chunks s) = length ?ps"
    using arg_cong[OF c, of length] by simp
  have "site_floor minT (segment_site (?ps ! i)) (tokenCount (chunks s ! i))" if i: "i < length ?ps" for i
  proof -
    have mem: "?ps ! i \<in> set ?ps" using i by (rule nth_mem)
    then have p: "is_pushed (?ps ! i)" and o: "segment_ok minT (?ps ! i)"
      using ok by (auto simp: list_all_iff)
    have "content (chunks s ! i) = join_with newline (segment_lines (?ps ! i))"
      using arg_cong[OF c, of "\<lambda>xs. xs ! i"] i len by simp
    moreover have "tokenCount (chunks s ! i) = estimateTokens (content (chunks s ! i))"
      using t i len by (simp add: list_all_length)
    ultimately have "tokenCount (chunks s ! i) = segment_tokens (?ps ! i)"
      by (simp add: segment_tokens_def)
    with pushed_floor[OF p o] show ?thesis by simp
  qed
  then show ?thesis
    using len by (simp add: list_all2_conv_all_nth pushed_sites_def)
qed

lemma chunk_lines_end_last:
  "AtEnd \<notin> set (butlast (pushed_sites (log (chunk_lines rt maxT minT lines))))"
proof
  let ?lg = "log (chunk_lines rt maxT minT lines)"
  assume "AtEnd \<in> set (butlast (pushed_sites ?lg))"
  then have "AtEnd \<in> set (map segment_site (butlast (filter is_pushed ?lg)))"
    by (simp add: pushed_sites_def map_butlast)
  then obtain seg where "seg \<in> set (butlast (filter is_pushed ?lg))" and e: "segment_site seg = AtEnd"
    by auto
  then have "seg \<in> set (butlast ?lg)" by (auto dest: butlast_filter_subset)
  with chunk_lines_props(5)[of rt maxT minT lines] have "segment_site seg \<noteq> AtEnd"
    by (auto simp: list_all_iff)
  with e show False by simp
qed


lemma split_on_lines_clean: "l \<in> set (split_on d s) \<Longrightarrow> d \<notin> set l"
proof (induction s arbitrary: l)
  case Nil
  then show ?case by simp
next
  case (Cons c cs)
  then show ?case
    by (cases "split_on d cs") (auto split: if_splits)
qed

lemma split_on_append_sep:
  "d \<notin> set x \<Longrightarrow> split_on d (x @ d # rest) = x # split_on d rest"
  by (induction x) auto

lemma split_join:
  "ls \<noteq> [] \<Longrightarrow> \<forall>l\<in>set ls. 10 \<notin> set l \<Longrightarrow> split_on 10 (join_with newline ls) = ls"
proof (induction newline ls rule: join_with.induct)
  case 1
  then show ?case by simp
next
  case (2 x)
  then show ?case by (simp add: split_on_no_sep)
next
  case (3 x y ys)
  then show ?case by (simp add: newline_def split_on_append_sep)
qed

lemma subseq_concat_filter: "subseq (concat (map f (filter P xs))) (concat (map f xs))"
proof (induction xs)
  case Nil
  show ?case by simp
next
  case (Cons a xs)
  show ?case
  proof (cases "P a")
    case True
    with Cons show ?thesis by (simp add: list_emb_append_mono)
  next
    case False
    with Cons show ?thesis by (simp add: list_emb_append2)
  qed
qed

lemma chunk_lines_subseq:
  assumes clean: "\<forall>l\<in>set lines. 10 \<notin> set l"
  shows "subseq (concat (map (\<lambda>c. split_on 10 (content c)) (chunks (chunk_lines rt maxT minT lines)))) lines"
proof -
  let ?s = "chunk_lines rt maxT minT lines"
  let ?ps = "filter is_pushed (log ?s)"
  have part: "concat (map segment_lines (log ?s)) = lines" by (rule chunk_lines_props(1))
  have c: "map content (chunks ?s) = map (\<lambda>seg. join_with newline (segment_lines seg)) ?ps"
    by (rule chunk_lines_props(2))
  have ne: "list_all (\<lambda>seg. segment_ok minT seg \<and> segment_lines seg \<noteq> []) (log ?s)"
    by (rule chunk_lines_props(4))
  have unsplit: "split_on 10 (join_with newline (segment_lines seg)) = segment_lines seg"
    if "seg \<in> set (log ?s)" for seg
  proof (rule split_join)
    show "segment_lines seg \<noteq> []" using ne that by (auto simp: list_all_iff)
    have "set (segment_lines seg) \<subseteq> set (concat (map segment_lines (log ?s)))"
      using that by auto
    with part clean show "\<forall>l\<in>set (segment_lines seg). 10 \<notin> set l" by auto
  qed
  have "map (\<lambda>c. split_on 10 (content c)) (chunks ?s) = map (split_on 10) (map content (chunks ?s))"
    by simp
  also have "\<dots> = map (\<lambda>seg. split_on 10 (join_with newline (segment_lines seg))) ?ps"
    by (simp add: c)
  also have "\<dots> = map segment_lines ?ps"
    using unsplit by (auto intro!: map_cong)
  finally have "concat (map (\<lambda>c. split_on 10 (content c)) (chunks ?s)) = concat (map segment_lines ?ps)"
    by simp
  with subseq_concat_filter[of segment_lines is_pushed "log ?s"] part show ?thesis by simp
qed


subsection \<open>C10: a single long line is emitted above maxTokens\<close>

text \<open>
  C10. \<open>findSplitPoint\<close> returns 0 for a one-line buffer and a positive index exactly
  for buffers of two or more lines, and the loop splits only on a positive index. So a
  document that is one line, not a heading, longer than \<open>4 * maxTokens\<close> code units,
  comes back as one chunk whose estimated token count exceeds \<open>maxTokens\<close>:
  \<open>maxTokens\<close> is not an upper bound on the size of an emitted chunk.
\<close>

theorem oversized_line_escapes_maxTokens:
  assumes "10 \<notin> set line" and "heading_match line = None"
    and "0 < minT" and "minT \<le> maxT" and "4 * maxT < length line"
  shows "findSplitPoint [line] = 0
       \<and> (0 < findSplitPoint ls) = (2 \<le> length ls)
       \<and> map tokenCount (chunkDocument rt line (Some \<lparr> maxTokens = Some maxT, minTokens = Some minT \<rparr>))
           = [estimateTokens line]
       \<and> maxT < estimateTokens line"
proof -
  have gt: "maxT < estimateTokens line" using assms(5) by (rule estimate_gt)
  have sp: "findSplitPoint [line] = 0"
    using findSplitPoint_pos[of "[line]"] by simp
  have run: "chunks (chunk_lines rt maxT minT (split_on 10 line)) =
           [new_chunk rt (initial_chunker\<lparr>currentChunk := [line]\<rparr>) line 0]"
    using assms gt by (intro single_line_run) auto
  have "map tokenCount (chunkDocument rt line (Some \<lparr> maxTokens = Some maxT, minTokens = Some minT \<rparr>))
           = [estimateTokens line]"
    using assms(3,4) by (simp add: chunkDocument_def chunker_run_def maxTokens_of_def minTokens_of_def run new_chunk_def)
  with gt sp findSplitPoint_pos show ?thesis by simp
qed

theorem oversized_line_escapes_maxTokens_witness:
  "map tokenCount (chunkDocument quiet_runtime (js ''aaaaaaaaa'')
      (Some \<lparr> maxTokens = Some 2, minTokens = Some 1 \<rparr>)) = [3] \<and> (2::nat) < 3"
proof -
  have a: "10 \<notin> set (js ''aaaaaaaaa'')" by (simp add: js_def)
  have b: "heading_match (js ''aaaaaaaaa'') = None" by (simp add: js_def heading_match_def)
  have c: "4 * 2 < length (js ''aaaaaaaaa'')" by (simp add: js_def)
  have e: "estimateTokens (js ''aaaaaaaaa'') = 3" by (simp add: js_def estimateTokens_def)
  show ?thesis
    using oversized_line_escapes_maxTokens[OF a b _ _ c, of 1 "[]" quiet_runtime] e by simp
qed

subsection \<open>C2: lower bounds on chunk sizes\<close>

text \<open>
  C2 as stated fails: a size split pushes whatever lies before the split point, with no
  lower bound. With \<open>maxTokens = 5\<close> and \<open>minTokens = 3\<close>, the two-line document
  \<open>a\<close>, \<open>bbbbbbbbbbbbbbbbbbbbbbbb\<close> reaches 7 tokens at its second line, is split at
  index 1, and yields the chunks \<open>a\<close> (1 token) and the second line (6 tokens): the
  first, a non-final chunk, is below \<open>minTokens\<close>.
\<close>

theorem split_chunk_below_minTokens:
  "map tokenCount (chunkDocument quiet_runtime (js ''a\<newline>bbbbbbbbbbbbbbbbbbbbbbbb'')
      (Some \<lparr> maxTokens = Some 5, minTokens = Some 3 \<rparr>)) = [1, 6]
   \<and> \<not> list_all ((\<le>) 3) (butlast (map tokenCount
        (chunkDocument quiet_runtime (js ''a\<newline>bbbbbbbbbbbbbbbbbbbbbbbb'')
          (Some \<lparr> maxTokens = Some 5, minTokens = Some 3 \<rparr>))))"
proof -
  have "map tokenCount (chunkDocument quiet_runtime (js ''a\<newline>bbbbbbbbbbbbbbbbbbbbbbbb'')
      (Some \<lparr> maxTokens = Some 5, minTokens = Some 3 \<rparr>)) = [1, 6]"
    by (simp add: chunkDocument_def chunker_run_def chunk_lines_def js_def heading_match_def
        chunk_step_def body_line_def heading_line_def final_flush_def initial_chunker_def
        new_chunk_def estimateTokens_def findSplitPoint_def upper_half_def newline_def Let_def
        js_trim_def is_js_space_def ends_sentence_def maxTokens_of_def minTokens_of_def)
  then show ?thesis by simp
qed

text \<open>
  C2, amended. For \<open>0 < minTokens \<le> maxTokens\<close>: pair the chunks, in output order,
  with the places of the source that pushed them. A chunk pushed at a heading boundary
  has at least \<open>minTokens\<close> estimated tokens; a chunk pushed by the flush after the loop
  has at least \<open>minTokens / 2\<close> and is the last chunk; a chunk pushed by a size split
  has no lower bound. Empty input yields no chunk.
\<close>

theorem chunk_floor_by_site:
  assumes "0 < minT" and "minT \<le> maxT"
  shows "list_all2 (\<lambda>st c. site_floor minT st (tokenCount c))
           (pushed_sites (chunk_log rt text (Some \<lparr> maxTokens = Some maxT, minTokens = Some minT \<rparr>)))
           (chunkDocument rt text (Some \<lparr> maxTokens = Some maxT, minTokens = Some minT \<rparr>))
       \<and> AtEnd \<notin> set (butlast (pushed_sites
             (chunk_log rt text (Some \<lparr> maxTokens = Some maxT, minTokens = Some minT \<rparr>))))
       \<and> chunkDocument rt [] (Some \<lparr> maxTokens = Some maxT, minTokens = Some minT \<rparr>) = []"
proof -
  let ?o = "Some \<lparr> maxTokens = Some maxT, minTokens = Some minT \<rparr>"
  have m: "minTokens_of ?o = minT" and mx: "maxTokens_of ?o = maxT"
    using assms by (simp_all add: minTokens_of_def maxTokens_of_def)
  have a: "list_all2 (\<lambda>st c. site_floor minT st (tokenCount c))
             (pushed_sites (chunk_log rt text ?o)) (chunkDocument rt text ?o)"
    using chunk_lines_floor[of minT rt maxT "split_on 10 text"]
    by (simp add: chunkDocument_def chunk_log_def chunker_run_def m mx)
  have b: "AtEnd \<notin> set (butlast (pushed_sites (chunk_log rt text ?o)))"
    using chunk_lines_end_last[of rt maxT minT "split_on 10 text"]
    by (simp add: chunk_log_def chunker_run_def m mx)
  show ?thesis
    by (intro conjI a b empty_text_no_chunks)
qed

theorem chunk_floor_by_site_witness:
  "pushed_sites (chunk_log quiet_runtime (js ''a\<newline>bbbbbbbbbbbbbbbbbbbbbbbb'')
      (Some \<lparr> maxTokens = Some 5, minTokens = Some 3 \<rparr>)) = [AtSplit, AtEnd]
   \<and> list_all2 (\<lambda>st c. site_floor 3 st (tokenCount c))
        (pushed_sites (chunk_log quiet_runtime (js ''a\<newline>bbbbbbbbbbbbbbbbbbbbbbbb'')
          (Some \<lparr> maxTokens = Some 5, minTokens = Some 3 \<rparr>)))
        (chunkDocument quiet_runtime (js ''a\<newline>bbbbbbbbbbbbbbbbbbbbbbbb'')
          (Some \<lparr> maxTokens = Some 5, minTokens = Some 3 \<rparr>))"
proof -
  have "pushed_sites (chunk_log quiet_runtime (js ''a\<newline>bbbbbbbbbbbbbbbbbbbbbbbb'')
      (Some \<lparr> maxTokens = Some 5, minTokens = Some 3 \<rparr>)) = [AtSplit, AtEnd]"
    by (simp add: chunk_log_def chunker_run_def chunk_lines_def js_def heading_match_def
        chunk_step_def body_line_def heading_line_def final_flush_def initial_chunker_def
        new_chunk_def estimateTokens_def findSplitPoint_def upper_half_def newline_def Let_def
        js_trim_def is_js_space_def ends_sentence_def maxTokens_of_def minTokens_of_def
        pushed_sites_def)
  moreover have "(0::nat) < 3" and "(3::nat) \<le> 5" by simp_all
  ultimately show ?thesis
    using chunk_floor_by_site[of 3 5 quiet_runtime "js ''a\<newline>bbbbbbbbbbbbbbbbbbbbbbbb''"]
    by simp
qed

subsection \<open>C3: which lines the chunks keep\<close>

text \<open>
  C3. The chunks, read in output order, are to reproduce the input lines, only a
  trailing undersized fragment being discarded; a buffer that is below \<open>minTokens\<close>
  when a heading arrives is to be merged forward. The code does not do that: under
  the comment \<open>Save current chunk if it has content\<close> the heading branch pushes the
  buffer only when it has reached \<open>minTokens\<close>, and then starts the new section with
  \<open>currentChunk = []\<close> in either case, so an undersized buffer is thrown away in the
  middle of the document. The branch that splits on size, a few lines below, keeps
  what it does not push (\<open>currentChunk = afterSplit\<close>). With \<open>minTokens = 3\<close>, the
  section \<open># b\<close>, \<open>x\<close> (2 tokens) of the document below is in no chunk, although the
  sections before and after it are: the lines of the chunks are not a prefix of the
  input lines.
\<close>

theorem undersized_section_dropped:
  "map content (chunkDocument quiet_runtime
      (js ''aaaaaaaaaaaa\<newline># b\<newline>x\<newline># c\<newline>cccccccccccc'')
      (Some \<lparr> maxTokens = Some 100, minTokens = Some 3 \<rparr>))
     = [js ''aaaaaaaaaaaa'', js ''# c\<newline>cccccccccccc'']
   \<and> \<not> prefix
        (concat (map (split_on 10) (map content (chunkDocument quiet_runtime
          (js ''aaaaaaaaaaaa\<newline># b\<newline>x\<newline># c\<newline>cccccccccccc'')
          (Some \<lparr> maxTokens = Some 100, minTokens = Some 3 \<rparr>)))))
        (split_on 10 (js ''aaaaaaaaaaaa\<newline># b\<newline>x\<newline># c\<newline>cccccccccccc''))"
proof -
  have "map content (chunkDocument quiet_runtime
      (js ''aaaaaaaaaaaa\<newline># b\<newline>x\<newline># c\<newline>cccccccccccc'')
      (Some \<lparr> maxTokens = Some 100, minTokens = Some 3 \<rparr>))
     = [js ''aaaaaaaaaaaa'', js ''# c\<newline>cccccccccccc'']"
    by (simp add: chunkDocument_def chunker_run_def chunk_lines_def js_def heading_match_def
        chunk_step_def body_line_def heading_line_def final_flush_def initial_chunker_def
        new_chunk_def estimateTokens_def findSplitPoint_def upper_half_def newline_def Let_def
        js_trim_def is_js_space_def ends_sentence_def maxTokens_of_def minTokens_of_def
        is_line_terminator_def)
  then show ?thesis by (simp add: js_def)
qed

text \<open>
  The extent of the loss. Every input line is in exactly one of the buffers the loop
  lets go of, in order; the chunks are the pushed buffers, joined by newlines; a buffer
  is thrown away only at a heading, when it is below \<open>minTokens\<close>, or after the loop,
  when it is below \<open>minTokens / 2\<close>. So the chunks never reorder, repeat or invent a
  line, and the lines missing from them are those of the buffers thrown away.
\<close>

lemma discarded_buffers_are_the_loss:
  "concat (map segment_lines (chunk_log rt text options)) = split_on 10 text
   \<and> map content (chunkDocument rt text options)
       = map (\<lambda>seg. join_with newline (segment_lines seg)) (filter is_pushed (chunk_log rt text options))
   \<and> list_all (segment_ok (minTokens_of options)) (chunk_log rt text options)
   \<and> list_all (\<lambda>seg. segment_site seg \<noteq> AtEnd) (butlast (chunk_log rt text options))
   \<and> subseq (concat (map (\<lambda>c. split_on 10 (content c)) (chunkDocument rt text options)))
        (split_on 10 text)"
proof -
  let ?maxT = "maxTokens_of options" and ?minT = "minTokens_of options" and ?lines = "split_on 10 text"
  have ok: "list_all (segment_ok ?minT) (log (chunk_lines rt ?maxT ?minT ?lines))"
    using chunk_lines_props(4)[of ?minT rt ?maxT ?lines] by (auto simp: list_all_iff)
  have clean: "\<forall>l\<in>set ?lines. 10 \<notin> set l" by (auto dest: split_on_lines_clean)
  show ?thesis
    unfolding chunk_log_def chunkDocument_def chunker_run_def
    by (intro conjI chunk_lines_props(1) chunk_lines_props(2) ok chunk_lines_props(5)
        chunk_lines_subseq[OF clean])
qed

section \<open>Properties of the router\<close>

subsection \<open>The retry loop\<close>

lemma retryable_failure_cases:
  "retryable_failure outcome \<Longrightarrow> \<exists>msg ty prov orig. outcome = Inl (LLMError msg ty True prov orig)"
  by (cases outcome rule: retryable_failure.cases) auto

lemma final_failure_cases:
  "final_failure outcome \<Longrightarrow> \<exists>msg ty prov orig. outcome = Inl (LLMError msg ty False prov orig)"
  by (cases outcome rule: final_failure.cases) auto

lemma retry_steps_append: "retry_steps (xs @ ys) = retry_steps xs @ retry_steps ys"
  by (induction xs rule: retry_steps.induct) auto

lemma calls_answered_append:
  "calls_answered p name messages tr (xs @ ys)
     = (calls_answered p name messages tr xs \<and> calls_answered p name messages (tr @ xs) ys)"
  by (induction p name messages tr xs rule: calls_answered.induct) auto

lemma answered_append:
  "answered r messages tr (xs @ ys)
     = (answered r messages tr xs \<and> answered r messages (tr @ xs) ys)"
  by (induction r messages tr xs rule: answered.induct) auto

lemma calls_answered_registered:
  "providers r name = Some p \<Longrightarrow> calls_answered p name messages tr evs \<Longrightarrow> answered r messages tr evs"
  by (induction p name messages tr evs rule: calls_answered.induct) auto

lemma retry_loop_always_retryable:
  "\<forall>tr. retryable_failure (generateCompletion p tr messages) \<Longrightarrow>
   attempt \<le> retryAttempts r \<Longrightarrow>
         \<exists>evs. snd (retry_loop r p name messages attempt lastError tr) = tr @ evs
           \<and> retry_steps evs =
               concat (map (\<lambda>i. if i < retryAttempts r - 1 then [Call, Wait (retryDelay r * 2 ^ i)] else [Call])
                         [attempt..<retryAttempts r])
           \<and> (attempt < retryAttempts r \<longrightarrow>
                 retryable_failure (fst (retry_loop r p name messages attempt lastError tr))
                 \<and> last (tr @ evs) = Attempt name (fst (retry_loop r p name messages attempt lastError tr)))
           \<and> (attempt = retryAttempts r \<longrightarrow>
                 fst (retry_loop r p name messages attempt lastError tr) = Inl lastError)"
proof (induction r p name messages attempt lastError tr rule: retry_loop.induct)
  case (1 r p name messages attempt lastError tr)
  show ?case
  proof (cases "attempt < retryAttempts r")
    case False
    with "1.prems"(2) have "attempt = retryAttempts r" by simp
    then show ?thesis by (simp add: retry_loop.simps)
  next
    case True
    obtain msg ty prov orig where
      out: "generateCompletion p tr messages = Inl (LLMError msg ty True prov orig)"
      using retryable_failure_cases[of "generateCompletion p tr messages"] "1.prems"(1) by blast
    let ?err = "LLMError msg ty True prov orig"
    let ?tr1 = "if attempt < retryAttempts r - 1
                then tr @ [Attempt name (Inl ?err), Sleep (retryDelay r * 2 ^ attempt)]
                else tr @ [Attempt name (Inl ?err)]"
    have unfold: "retry_loop r p name messages attempt lastError tr
                = retry_loop r p name messages (attempt + 1) ?err ?tr1"
      using True out by (subst retry_loop.simps) simp
    from "1.IH"[OF True out refl _ "1.prems"(1)] True
    obtain evs where
      tr': "snd (retry_loop r p name messages (attempt + 1) ?err ?tr1) = ?tr1 @ evs"
      and steps: "retry_steps evs =
          concat (map (\<lambda>i. if i < retryAttempts r - 1 then [Call, Wait (retryDelay r * 2 ^ i)] else [Call])
                    [attempt + 1..<retryAttempts r])"
      and more: "attempt + 1 < retryAttempts r \<longrightarrow>
            retryable_failure (fst (retry_loop r p name messages (attempt + 1) ?err ?tr1))
            \<and> last (?tr1 @ evs) = Attempt name (fst (retry_loop r p name messages (attempt + 1) ?err ?tr1))"
      and fin: "attempt + 1 = retryAttempts r \<longrightarrow>
            fst (retry_loop r p name messages (attempt + 1) ?err ?tr1) = Inl ?err"
      by auto
    have range: "[attempt..<retryAttempts r] = attempt # [attempt + 1..<retryAttempts r]"
      using True by (simp add: upt_conv_Cons)
    show ?thesis
    proof (cases "attempt + 1 < retryAttempts r")
      case lt: True
      then have t1: "?tr1 = tr @ [Attempt name (Inl ?err), Sleep (retryDelay r * 2 ^ attempt)]"
        by simp
      have ne: "evs \<noteq> []"
      proof
        assume "evs = []"
        with steps lt show False by (auto simp: upt_conv_Cons split: if_splits)
      qed
      have a1: "attempt < retryAttempts r - 1" using lt by simp
      show ?thesis
        apply (rule exI[of _ "[Attempt name (Inl ?err), Sleep (retryDelay r * 2 ^ attempt)] @ evs"])
        using tr' steps more lt True ne a1
        by (simp add: unfold range retry_steps_append)
    next
      case False
      with True have eq: "attempt + 1 = retryAttempts r" by simp
      then have t1: "?tr1 = tr @ [Attempt name (Inl ?err)]" by simp
      have stop: "retry_loop r p name messages (attempt + 1) ?err ?tr1 = (Inl ?err, ?tr1)"
        using eq by (subst retry_loop.simps) simp
      have "retry_loop r p name messages attempt lastError tr
              = retry_loop r p name messages (attempt + 1) ?err ?tr1"
        by (rule unfold)
      also have "\<dots> = (Inl ?err, ?tr1)" by (rule stop)
      also have "\<dots> = (Inl ?err, tr @ [Attempt name (Inl ?err)])" by (simp only: t1)
      finally have res: "retry_loop r p name messages attempt lastError tr
                  = (Inl ?err, tr @ [Attempt name (Inl ?err)])" .
      have a1: "\<not> attempt < retryAttempts r - 1" using eq by simp
      have r1: "[attempt..<retryAttempts r] = [attempt]"
        using eq range by simp
      show ?thesis
        apply (rule exI[of _ "[Attempt name (Inl ?err)]"])
        using True a1
        by (simp add: res r1)
    qed
  qed
qed

lemma backoff_calls: "length (filter (\<lambda>s. s = Call) (backoff_schedule n d)) = n"
proof -
  have "length (filter (\<lambda>s. s = Call)
          (concat (map (\<lambda>i. if i < m then [Call, Wait (d * 2 ^ i)] else [Call]) xs))) = length xs"
    for m and xs :: "nat list"
    by (induction xs) auto
  from this[of "n - 1" "[0..<n]"] show ?thesis by (simp add: backoff_schedule_def)
qed

lemma retry_steps_calls:
  "length (filter is_attempt evs) = length (filter (\<lambda>s. s = Call) (retry_steps evs))"
  by (induction evs rule: retry_steps.induct) auto

text \<open>
  Whatever the provider does: the loop adds to the trace only calls of this provider,
  each with the provider's own answer, and waits; a response it returns is that of the
  last call, the first to succeed; an error it throws is that of the last call, unless
  no call was made, and then it is \<open>lastError\<close> as the loop was entered.
\<close>

lemma retry_loop_trace:
  "\<exists>evs. snd (retry_loop r p name messages attempt lastError tr) = tr @ evs
     \<and> calls_answered p name messages tr evs
     \<and> list_all (\<lambda>e. \<forall>m. invokes m e \<longrightarrow> m = name) evs
     \<and> (case fst (retry_loop r p name messages attempt lastError tr) of
           Inr response \<Rightarrow> evs \<noteq> [] \<and> last evs = Attempt name (Inr response)
                            \<and> \<not> list_ex is_success (butlast evs)
         | Inl error \<Rightarrow> \<not> list_ex is_success evs
             \<and> (if evs = [] then error = lastError \<and> retryAttempts r \<le> attempt
                 else last evs = Attempt name (Inl error)))"
proof (induction r p name messages attempt lastError tr rule: retry_loop.induct)
  case (1 r p name messages attempt lastError tr)
  show ?case
  proof (cases "attempt < retryAttempts r")
    case False
    then show ?thesis by (subst (1 2) retry_loop.simps) simp
  next
    case True
    show ?thesis
    proof (cases "generateCompletion p tr messages")
      case (Inr response)
      with True show ?thesis by (subst (1 2) retry_loop.simps) simp
    next
      case (Inl error)
      show ?thesis
      proof (cases "retryable_failure (Inl error :: thrown + LLMResponse)")
        case False
        with True Inl show ?thesis
          by (subst (1 2) retry_loop.simps) (auto split: thrown.splits)
      next
        case rf: True
        then obtain msg ty prov orig where e: "error = LLMError msg ty True prov orig"
          using retryable_failure_cases by blast
        define tr1 where "tr1 = (if attempt < retryAttempts r - 1
                then tr @ [Attempt name (Inl error), Sleep (retryDelay r * 2 ^ attempt)]
                else tr @ [Attempt name (Inl error)])"
        have unfold: "retry_loop r p name messages attempt lastError tr
                = retry_loop r p name messages (attempt + 1) error tr1"
          using True Inl e unfolding tr1_def by (subst retry_loop.simps) simp
        have "\<not> \<not> True" by simp
        from "1.IH"[OF True Inl e this]
        obtain evs where
          tr': "snd (retry_loop r p name messages (attempt + 1) error tr1) = tr1 @ evs"
          and ans: "calls_answered p name messages tr1 evs"
          and only: "list_all (\<lambda>e. \<forall>m. invokes m e \<longrightarrow> m = name) evs"
          and res: "(case fst (retry_loop r p name messages (attempt + 1) error tr1) of
                 Inr response \<Rightarrow> evs \<noteq> [] \<and> last evs = Attempt name (Inr response)
                            \<and> \<not> list_ex is_success (butlast evs)
               | Inl error' \<Rightarrow> \<not> list_ex is_success evs
                   \<and> (if evs = [] then error' = error \<and> retryAttempts r \<le> attempt + 1
                       else last evs = Attempt name (Inl error')))"
          unfolding tr1_def[symmetric] by blast
        obtain pre where pre: "tr1 = tr @ pre" and p1: "list_all (\<lambda>e. \<forall>m. invokes m e \<longrightarrow> m = name) pre"
          and p2: "\<not> list_ex is_success pre"
          and p3: "calls_answered p name messages tr pre"
          and p4: "pre \<noteq> []"
          and p5: "retryAttempts r \<le> attempt + 1 \<longrightarrow> last pre = Attempt name (Inl error)"
          unfolding tr1_def using Inl by (cases "attempt < retryAttempts r - 1") auto
        have ans': "calls_answered p name messages tr (pre @ evs)"
          using p3 ans pre by (simp add: calls_answered_append)
        show ?thesis
          apply (rule exI[of _ "pre @ evs"])
          using tr' only res p1 p2 p4 p5 ans'
          by (auto simp: unfold pre butlast_append split: sum.splits if_splits)
      qed
    qed
  qed
qed

lemma generateWithRetry_trace:
  "\<exists>evs. snd (generateWithRetry r p name messages tr) = tr @ evs
     \<and> calls_answered p name messages tr evs
     \<and> list_all (\<lambda>e. \<forall>m. invokes m e \<longrightarrow> m = name) evs
     \<and> (case fst (generateWithRetry r p name messages tr) of
           Inr response \<Rightarrow> evs \<noteq> [] \<and> last evs = Attempt name (Inr response)
                            \<and> \<not> list_ex is_success (butlast evs)
         | Inl error \<Rightarrow> \<not> list_ex is_success evs
             \<and> (if evs = [] then error = JsNull \<and> retryAttempts r = 0
                 else last evs = Attempt name (Inl error)))"
proof -
  from retry_loop_trace[of r p name messages 0 JsNull tr] obtain evs where
    "snd (retry_loop r p name messages 0 JsNull tr) = tr @ evs"
    "calls_answered p name messages tr evs"
    "list_all (\<lambda>e. \<forall>m. invokes m e \<longrightarrow> m = name) evs"
    "case fst (retry_loop r p name messages 0 JsNull tr) of
           Inr response \<Rightarrow> evs \<noteq> [] \<and> last evs = Attempt name (Inr response)
                            \<and> \<not> list_ex is_success (butlast evs)
         | Inl error \<Rightarrow> \<not> list_ex is_success evs
             \<and> (if evs = [] then error = JsNull \<and> retryAttempts r \<le> 0
                 else last evs = Attempt name (Inl error))"
    by blast
  then show ?thesis
    unfolding generateWithRetry_def
    by (intro exI[of _ evs]) (auto split: sum.splits if_splits)
qed

subsection \<open>C4: the retry policy of one provider\<close>

text \<open>
  C4 as stated fails when \<open>retryAttempts\<close> is 0, a value \<open>setRetryConfig\<close> accepts: the
  loop body never runs. A provider whose first call would throw a non-retryable
  \<open>LLMError\<close> is not called once but not at all; and for a provider that would keep
  throwing retryable errors there is no last error to surface: what
  \<open>generateWithRetry\<close> throws is no error of the provider.
\<close>

theorem no_attempts_no_call:
  "final_failure (generateCompletion unauthorized [] [])
   \<and> generateWithRetry (setRetryConfig 0 1000 new_router) unauthorized (js ''p1'') [] []
       = (Inl JsNull, [])
   \<and> length (filter is_attempt
        (snd (generateWithRetry (setRetryConfig 0 1000 new_router) unauthorized (js ''p1'') [] [])))
       \<noteq> 1
   \<and> generateWithRetry (setRetryConfig 0 1000 new_router) rate_limited (js ''p1'') [] []
       = (Inl JsNull, [])
   \<and> \<not> retryable_failure
         (fst (generateWithRetry (setRetryConfig 0 1000 new_router) rate_limited (js ''p1'') [] []))"
  by (simp add: unauthorized_def rate_limited_def generateWithRetry_def retry_loop.simps
      setRetryConfig_def new_router_def)

text \<open>
  C4, amended. If every call of the provider's \<open>generateCompletion\<close> throws a retryable
  \<open>LLMError\<close>, \<open>generateWithRetry\<close> adds to the trace calls of this provider and waits
  only, every call recorded with the provider's own answer to it; the calls are exactly
  \<open>retryAttempts\<close>; after the \<open>i\<close>-th failed call, for \<open>i < retryAttempts - 1\<close>, and
  not after the last one, it waits \<open>retryDelay * 2 ^ i\<close>; and, \<open>retryAttempts\<close> being
  at least 1, it throws to the provider loop the error of the last call. If
  \<open>retryAttempts\<close> is at least 1 and the first call throws a non-retryable \<open>LLMError\<close>,
  that call is the only one and its error is thrown at once. If \<open>retryAttempts\<close> is 0,
  the provider is not called.
\<close>

theorem retry_policy:
  "((\<forall>tr'. retryable_failure (generateCompletion p tr' messages)) \<longrightarrow>
      take (length tr) (snd (generateWithRetry r p name messages tr)) = tr
      \<and> calls_answered p name messages tr
          (drop (length tr) (snd (generateWithRetry r p name messages tr)))
      \<and> retry_steps (drop (length tr) (snd (generateWithRetry r p name messages tr)))
          = backoff_schedule (retryAttempts r) (retryDelay r)
      \<and> length (filter is_attempt (drop (length tr) (snd (generateWithRetry r p name messages tr))))
          = retryAttempts r
      \<and> (0 < retryAttempts r \<longrightarrow>
            retryable_failure (fst (generateWithRetry r p name messages tr))
            \<and> last (snd (generateWithRetry r p name messages tr))
                = Attempt name (fst (generateWithRetry r p name messages tr))))
   \<and> (final_failure (generateCompletion p tr messages) \<and> 0 < retryAttempts r \<longrightarrow>
        generateWithRetry r p name messages tr
          = (generateCompletion p tr messages,
             tr @ [Attempt name (generateCompletion p tr messages)]))
   \<and> (retryAttempts r = 0 \<longrightarrow> snd (generateWithRetry r p name messages tr) = tr)"
proof (intro conjI impI)
  assume always: "\<forall>tr'. retryable_failure (generateCompletion p tr' messages)"
  from retry_loop_always_retryable[OF always, of 0 r name JsNull tr]
  obtain evs where
    tr': "snd (generateWithRetry r p name messages tr) = tr @ evs"
    and steps: "retry_steps evs = backoff_schedule (retryAttempts r) (retryDelay r)"
    and fin: "0 < retryAttempts r \<longrightarrow>
          retryable_failure (fst (generateWithRetry r p name messages tr))
          \<and> last (tr @ evs) = Attempt name (fst (generateWithRetry r p name messages tr))"
    by (auto simp: generateWithRetry_def backoff_schedule_def)
  from generateWithRetry_trace[of r p name messages tr] tr'
  have ans: "calls_answered p name messages tr evs" by auto
  show "take (length tr) (snd (generateWithRetry r p name messages tr)) = tr"
    by (simp add: tr')
  show "calls_answered p name messages tr
          (drop (length tr) (snd (generateWithRetry r p name messages tr)))"
    by (simp add: tr' ans)
  show "retry_steps (drop (length tr) (snd (generateWithRetry r p name messages tr)))
          = backoff_schedule (retryAttempts r) (retryDelay r)"
    by (simp add: tr' steps)
  show "length (filter is_attempt (drop (length tr) (snd (generateWithRetry r p name messages tr))))
          = retryAttempts r"
    by (simp add: tr' retry_steps_calls steps backoff_calls)
  show "retryable_failure (fst (generateWithRetry r p name messages tr))" if "0 < retryAttempts r"
    using fin that by simp
  show "last (snd (generateWithRetry r p name messages tr))
                = Attempt name (fst (generateWithRetry r p name messages tr))" if "0 < retryAttempts r"
    using fin that by (simp add: tr')
next
  assume a: "final_failure (generateCompletion p tr messages) \<and> 0 < retryAttempts r"
  then obtain msg ty prov orig where
    out: "generateCompletion p tr messages = Inl (LLMError msg ty False prov orig)"
    using final_failure_cases by blast
  show "generateWithRetry r p name messages tr
          = (generateCompletion p tr messages,
             tr @ [Attempt name (generateCompletion p tr messages)])"
    using a out unfolding generateWithRetry_def by (subst retry_loop.simps) simp
next
  assume "retryAttempts r = 0"
  then show "snd (generateWithRetry r p name messages tr) = tr"
    unfolding generateWithRetry_def by (subst retry_loop.simps) simp
qed

text \<open>
  Three attempts at a provider that is throttled once and down from then on: three
  calls with waits of 1000 and 2000 ms between them, and the error thrown is the
  server error of the last call, not the rate limit of the first. One attempt at a
  provider that refuses the key. No call with \<open>retryAttempts = 0\<close>.
\<close>

theorem retry_policy_witness:
  "retry_steps (snd (generateWithRetry new_router throttled_then_down (js ''p1'') [] []))
     = [Call, Wait 1000, Call, Wait 2000, Call]
   \<and> length (filter is_attempt
        (snd (generateWithRetry new_router throttled_then_down (js ''p1'') [] []))) = 3
   \<and> calls_answered throttled_then_down (js ''p1'') [] []
        (snd (generateWithRetry new_router throttled_then_down (js ''p1'') [] []))
   \<and> last (snd (generateWithRetry new_router throttled_then_down (js ''p1'') [] []))
       = Attempt (js ''p1'') (fst (generateWithRetry new_router throttled_then_down (js ''p1'') [] []))
   \<and> fst (generateWithRetry new_router throttled_then_down (js ''p1'') [] [])
       = Inl (LLMError (js ''Server error: 500'') API_ERROR True (Some (js ''p1'')) None)
   \<and> generateWithRetry new_router unauthorized (js ''p1'') [] []
       = (generateCompletion unauthorized [] [],
          [Attempt (js ''p1'') (generateCompletion unauthorized [] [])])
   \<and> snd (generateWithRetry (setRetryConfig 0 1000 new_router) rate_limited (js ''p1'') [] []) = []"
proof -
  have h1: "\<forall>tr'. retryable_failure (generateCompletion throttled_then_down tr' [])"
    by (simp add: throttled_then_down_def)
  have h3: "retryAttempts (setRetryConfig 0 1000 new_router) = 0"
    by (simp add: setRetryConfig_def)
  have h2: "final_failure (generateCompletion unauthorized [] []) \<and> 0 < retryAttempts new_router"
    by (simp add: unauthorized_def new_router_def)
  have s: "backoff_schedule (retryAttempts new_router) (retryDelay new_router)
            = [Call, Wait 1000, Call, Wait 2000, Call]"
    by (simp add: backoff_schedule_def new_router_def upt_rec)
  have n: "retryAttempts new_router = 3" by (simp add: new_router_def)
  have run: "fst (generateWithRetry new_router throttled_then_down (js ''p1'') [] [])
       = Inl (LLMError (js ''Server error: 500'') API_ERROR True (Some (js ''p1'')) None)"
    by (simp add: generateWithRetry_def retry_loop.simps new_router_def throttled_then_down_def)
  show ?thesis
    using retry_policy[of throttled_then_down "[]" "[]" new_router "js ''p1''"]
      retry_policy[of unauthorized "[]" "[]" new_router "js ''p1''"]
      retry_policy[of rate_limited "[]" "[]" "setRetryConfig 0 1000 new_router" "js ''p1''"]
      h1 h2 h3 s n run
    by simp
qed

subsection \<open>The provider loop\<close>

lemma caught_escaped: "caught n error = Inl escaped \<Longrightarrow> error = JsNull \<and> escaped = null_message_error"
  by (cases error) (auto simp: caught_def)

lemma caught_newLast: "caught n error = Inr newLast \<Longrightarrow> error \<noteq> JsNull \<and> is_llm_error newLast"
  by (cases error) (auto simp: caught_def)

lemma chain_outcome_skip:
  assumes "chain_outcome r rest res evs"
    and "list_all (\<lambda>e. \<forall>m. invokes m e \<longrightarrow> m = n) evs1"
    and "\<not> list_ex is_success evs1"
    and "providers r n = None \<or> list_ex (consulted n) evs1"
  shows "chain_outcome r (n # rest) res (evs1 @ evs)"
proof (cases res)
  case (Inl error)
  with assms show ?thesis
    by (auto simp: chain_outcome_def list_all_iff list_ex_iff split: if_splits)
next
  case (Inr response)
  with assms obtain pre name post evs0 where
    c: "rest = pre @ name # post" and e: "evs = evs0 @ [Attempt name (Inr response)]"
    and s: "\<not> list_ex is_success evs0"
    and o: "list_all (\<lambda>e. \<forall>m. invokes m e \<longrightarrow> m \<in> set pre \<union> {name}) evs"
    and t: "list_all (\<lambda>m. providers r m = None \<or> list_ex (consulted m) evs0) pre"
    by (auto simp: chain_outcome_def)
  have "n # rest = (n # pre) @ name # post" using c by simp
  moreover have "evs1 @ evs = (evs1 @ evs0) @ [Attempt name (Inr response)]" using e by simp
  moreover have "\<not> list_ex is_success (evs1 @ evs0)" using s assms(3) by (auto simp: list_ex_iff)
  moreover have "list_all (\<lambda>e. \<forall>m. invokes m e \<longrightarrow> m \<in> set (n # pre) \<union> {name}) (evs1 @ evs)"
    using o assms(2) by (auto simp: list_all_iff)
  moreover have "list_all (\<lambda>m. providers r m = None \<or> list_ex (consulted m) (evs1 @ evs0)) (n # pre)"
    using t assms(4) by (auto simp: list_all_iff list_ex_iff)
  ultimately show ?thesis
    unfolding chain_outcome_def Inr by (simp only: sum.case) blast
qed

lemma chain_outcome_hit:
  assumes "evs \<noteq> []" and "last evs = Attempt n (Inr response)"
    and "\<not> list_ex is_success (butlast evs)"
    and "list_all (\<lambda>e. \<forall>m. invokes m e \<longrightarrow> m = n) evs"
  shows "chain_outcome r (n # rest) (Inr response) evs"
proof -
  have "n # rest = [] @ n # rest" by simp
  moreover have "evs = butlast evs @ [Attempt n (Inr response)]"
    using assms(1,2) by (metis append_butlast_last_id)
  moreover have "list_all (\<lambda>e. \<forall>m. invokes m e \<longrightarrow> m \<in> set [] \<union> {n}) evs"
    using assms(4) by (auto simp: list_all_iff)
  moreover have "list_all (\<lambda>m. providers r m = None \<or> list_ex (consulted m) (butlast evs)) []"
    by simp
  ultimately show ?thesis
    unfolding chain_outcome_def using assms(3) by (simp only: sum.case) blast
qed

lemma chain_outcome_stop:
  assumes "list_all (\<lambda>e. \<forall>m. invokes m e \<longrightarrow> m = n) evs" and "\<not> list_ex is_success evs"
    and "evs \<noteq> []"
    and "null_answer (last evs) \<or> retryAttempts r = 0 \<and> found_available (last evs)"
  shows "chain_outcome r (n # rest) (Inl null_message_error) evs"
  using assms by (auto simp: chain_outcome_def list_all_iff null_message_error_def)

lemma try_providers_trace:
  "(case lastError of None \<Rightarrow> True | Some e \<Rightarrow> is_llm_error e) \<Longrightarrow>
   \<exists>evs. snd (try_providers r messages chain lastError tr) = tr @ evs
     \<and> answered r messages tr evs
     \<and> chain_outcome r chain (fst (try_providers r messages chain lastError tr)) evs"
proof (induction chain arbitrary: lastError tr)
  case Nil
  then show ?case by (auto simp: chain_outcome_def split: option.splits)
next
  case (Cons n rest)
  show ?case
  proof (cases "providers r n")
    case None
    from Cons.IH[OF Cons.prems, of tr] obtain evs where
      "snd (try_providers r messages rest lastError tr) = tr @ evs"
      "answered r messages tr evs"
      "chain_outcome r rest (fst (try_providers r messages rest lastError tr)) evs" by blast
    with chain_outcome_skip[of r rest _ evs n "[]"] None show ?thesis by auto
  next
    case (Some p)
    show ?thesis
    proof (cases "isAvailable p tr")
      case (Inl error)
      let ?c = "[Checked n (Inl error)]"
      have c1: "list_all (\<lambda>e. \<forall>m. invokes m e \<longrightarrow> m = n) ?c" and c2: "\<not> list_ex is_success ?c"
        and c3: "providers r n = None \<or> list_ex (consulted n) ?c"
        and c4: "answered r messages tr ?c"
        using Some Inl by simp_all
      show ?thesis
      proof (cases "caught n error")
        case esc: (Inl escaped)
        from caught_escaped[OF esc] have e: "error = JsNull" "escaped = null_message_error"
          by simp_all
        have "chain_outcome r (n # rest) (Inl null_message_error) ?c"
          by (rule chain_outcome_stop[OF c1 c2]) (simp_all add: e)
        with Some Inl esc e c4 show ?thesis
          by (intro exI[of _ ?c]) simp
      next
        case (Inr newLast)
        from caught_newLast[OF Inr] have "case Some newLast of None \<Rightarrow> True | Some e \<Rightarrow> is_llm_error e"
          by simp
        from Cons.IH[OF this, of "tr @ ?c"] obtain evs where
          "snd (try_providers r messages rest (Some newLast) (tr @ ?c)) = (tr @ ?c) @ evs"
          "answered r messages (tr @ ?c) evs"
          "chain_outcome r rest (fst (try_providers r messages rest (Some newLast) (tr @ ?c))) evs"
          by blast
        with chain_outcome_skip[OF _ c1 c2 c3] Some Inl Inr c4 show ?thesis
          by (intro exI[of _ "?c @ evs"]) (simp add: answered_append)
      qed
    next
      case (Inr available)
      show ?thesis
      proof (cases available)
        case False
        let ?c = "[Checked n (Inr False)]"
        let ?le = "Some (LLMError (js ''Provider '' @ n @ js '' is not available'')
                            PROVIDER_UNAVAILABLE True (Some n) None)"
        have c1: "list_all (\<lambda>e. \<forall>m. invokes m e \<longrightarrow> m = n) ?c" and c2: "\<not> list_ex is_success ?c"
          and c3: "providers r n = None \<or> list_ex (consulted n) ?c"
          and c4: "answered r messages tr ?c"
          using Some Inr False by simp_all
        have "case ?le of None \<Rightarrow> True | Some e \<Rightarrow> is_llm_error e" by simp
        from Cons.IH[OF this, of "tr @ ?c"] obtain evs where
          "snd (try_providers r messages rest ?le (tr @ ?c)) = (tr @ ?c) @ evs"
          "answered r messages (tr @ ?c) evs"
          "chain_outcome r rest (fst (try_providers r messages rest ?le (tr @ ?c))) evs"
          by blast
        with chain_outcome_skip[OF _ c1 c2 c3] Some Inr False c4 show ?thesis
          by (intro exI[of _ "?c @ evs"]) (simp add: answered_append)
      next
        case True
        let ?c = "[Checked n (Inr True)]"
        obtain res tr1 where g: "generateWithRetry r p n messages (tr @ ?c) = (res, tr1)"
          by (cases "generateWithRetry r p n messages (tr @ ?c)") auto
        from generateWithRetry_trace[of r p n messages "tr @ ?c"] g obtain evs1 where
          t1: "tr1 = (tr @ ?c) @ evs1"
          and a1: "calls_answered p n messages (tr @ ?c) evs1"
          and o1: "list_all (\<lambda>e. \<forall>m. invokes m e \<longrightarrow> m = n) evs1"
          and r1: "(case res of
                     Inr response \<Rightarrow> evs1 \<noteq> [] \<and> last evs1 = Attempt n (Inr response)
                            \<and> \<not> list_ex is_success (butlast evs1)
                   | Inl error \<Rightarrow> \<not> list_ex is_success evs1
                       \<and> (if evs1 = [] then error = JsNull \<and> retryAttempts r = 0
                           else last evs1 = Attempt n (Inl error)))"
          by auto
        have c1: "list_all (\<lambda>e. \<forall>m. invokes m e \<longrightarrow> m = n) (?c @ evs1)"
          using o1 by simp
        have c4: "answered r messages tr (?c @ evs1)"
          using calls_answered_registered[OF Some a1] Some Inr True
          by (simp add: answered_append)
        show ?thesis
        proof (cases res)
          case rr: (Inr response)
          have "chain_outcome r (n # rest) (Inr response) (?c @ evs1)"
            using r1 rr o1 by (intro chain_outcome_hit) (auto simp: butlast_append)
          with Some Inr True g rr t1 c4 show ?thesis
            by (intro exI[of _ "?c @ evs1"]) simp
        next
          case rl: (Inl error)
          have c2: "\<not> list_ex is_success (?c @ evs1)" using r1 rl by simp
          show ?thesis
          proof (cases "caught n error")
            case esc: (Inl escaped)
            from caught_escaped[OF esc] have e: "error = JsNull" "escaped = null_message_error"
              by simp_all
            have "null_answer (last (?c @ evs1))
                  \<or> retryAttempts r = 0 \<and> found_available (last (?c @ evs1))"
              using r1 rl e by (cases "evs1 = []") simp_all
            then have "chain_outcome r (n # rest) (Inl null_message_error) (?c @ evs1)"
              by (intro chain_outcome_stop[OF c1 c2]) simp_all
            with Some Inr True g rl t1 esc e c4 show ?thesis
              by (intro exI[of _ "?c @ evs1"]) simp
          next
            case cont: (Inr newLast)
            from caught_newLast[OF cont] have nn: "error \<noteq> JsNull"
              and le: "case Some newLast of None \<Rightarrow> True | Some e \<Rightarrow> is_llm_error e"
              by simp_all
            from r1 rl nn have ne: "evs1 \<noteq> []" and la: "last evs1 = Attempt n (Inl error)"
              by (auto split: if_splits)
            have "consulted n (last evs1)" by (simp add: la)
            then have c3: "providers r n = None \<or> list_ex (consulted n) (?c @ evs1)"
              using ne last_in_set[OF ne] by (auto simp: list_ex_iff)
            from Cons.IH[OF le, of tr1] obtain evs where
              "snd (try_providers r messages rest (Some newLast) tr1) = tr1 @ evs"
              "answered r messages tr1 evs"
              "chain_outcome r rest (fst (try_providers r messages rest (Some newLast) tr1)) evs"
              by blast
            with chain_outcome_skip[OF _ c1 c2 c3] Some Inr True g rl t1 cont c4 show ?thesis
              by (intro exI[of _ "(?c @ evs1) @ evs"]) (simp add: answered_append)
          qed
        qed
      qed
    qed
  qed
qed

lemma fold_chain_distinct:
  "distinct chain \<Longrightarrow>
   distinct (fold (\<lambda>fallback chain. if fallback \<notin> set chain then chain @ [fallback] else chain) fs chain)"
  by (induction fs arbitrary: chain) auto

lemma buildProviderChain_distinct: "distinct (buildProviderChain r preferredProvider)"
  unfolding buildProviderChain_def Let_def
  by (rule fold_chain_distinct) (auto split: option.splits)

lemma generate_trace:
  "\<exists>evs. snd (generate r messages preferredProvider tr) = tr @ evs
     \<and> answered r messages tr evs
     \<and> chain_outcome r (buildProviderChain r preferredProvider)
          (fst (generate r messages preferredProvider tr)) evs"
proof (cases "buildProviderChain r preferredProvider = []")
  case True
  then show ?thesis by (simp add: generate_def chain_outcome_def)
next
  case False
  have "case None :: thrown option of None \<Rightarrow> True | Some e \<Rightarrow> is_llm_error e" by simp
  from try_providers_trace[OF this, of r messages "buildProviderChain r preferredProvider" tr] False
  show ?thesis by (simp add: generate_def)
qed


subsection \<open>C5: the first success is returned and ends the run\<close>

text \<open>
  C5. Every event of a run of \<open>generate\<close> is a check or a call of a registered
  provider, recorded with that provider's own answer. When \<open>generate\<close> returns a
  response, the run ends with the call that produced it, by a provider of the attempt
  chain: the response is what that provider's \<open>generateCompletion\<close> returned. No call
  before it succeeded, and every registered provider earlier in the chain had its
  turn: it was found not available, or it was called and failed. No provider later
  in the chain was invoked at all, neither its availability check nor its
  \<open>generateCompletion\<close>. When \<open>generate\<close> throws, no call has succeeded, so a successful
  call is always returned; and when what it throws is an \<open>LLMError\<close>, every registered
  provider of the chain had its turn. (The only other thing it throws is the
  TypeError of its \<open>catch\<close> block, after a provider threw \<open>null\<close> or, \<open>retryAttempts\<close>
  being 0, was found available.) With two registered providers whose first succeeds,
  the second is never called.
\<close>

theorem first_success_wins:
  "generate r messages preferredProvider tr = (res, tr') \<Longrightarrow>
     take (length tr) tr' = tr
   \<and> answered r messages tr (drop (length tr) tr')
   \<and> (case res of
        Inr response \<Rightarrow>
          (\<exists>pre name post evs.
              buildProviderChain r preferredProvider = pre @ name # post
            \<and> drop (length tr) tr' = evs @ [Attempt name (Inr response)]
            \<and> \<not> list_ex is_success evs
            \<and> list_all (\<lambda>m. providers r m = None \<or> list_ex (consulted m) evs) pre
            \<and> list_all (\<lambda>m. \<not> list_ex (invokes m) (evs @ [Attempt name (Inr response)])) post)
      | Inl error \<Rightarrow>
          \<not> list_ex is_success (drop (length tr) tr')
          \<and> (if is_llm_error error
               then list_all (\<lambda>m. providers r m = None \<or> list_ex (consulted m) (drop (length tr) tr'))
                      (buildProviderChain r preferredProvider)
               else error = null_message_error \<and> drop (length tr) tr' \<noteq> []
                    \<and> (null_answer (last tr')
                        \<or> retryAttempts r = 0 \<and> found_available (last tr'))))"
proof -
  let ?chain = "buildProviderChain r preferredProvider"
  assume g: "generate r messages preferredProvider tr = (res, tr')"
  from generate_trace[of r messages preferredProvider tr] g obtain all_evs where
    a: "tr' = tr @ all_evs" and an: "answered r messages tr all_evs"
    and c: "chain_outcome r ?chain res all_evs" by auto
  have d: "drop (length tr) tr' = all_evs" by (simp add: a)
  have third: "case res of
        Inr response \<Rightarrow>
          (\<exists>pre name post evs.
              ?chain = pre @ name # post
            \<and> all_evs = evs @ [Attempt name (Inr response)]
            \<and> \<not> list_ex is_success evs
            \<and> list_all (\<lambda>m. providers r m = None \<or> list_ex (consulted m) evs) pre
            \<and> list_all (\<lambda>m. \<not> list_ex (invokes m) (evs @ [Attempt name (Inr response)])) post)
      | Inl error \<Rightarrow>
          \<not> list_ex is_success all_evs
          \<and> (if is_llm_error error
               then list_all (\<lambda>m. providers r m = None \<or> list_ex (consulted m) all_evs) ?chain
               else error = null_message_error \<and> all_evs \<noteq> []
                    \<and> (null_answer (last tr')
                        \<or> retryAttempts r = 0 \<and> found_available (last tr')))"
  proof (cases res)
    case (Inl error)
    with c a show ?thesis by (auto simp: chain_outcome_def)
  next
    case (Inr response)
    with c obtain pre name post evs where
      ch: "?chain = pre @ name # post" and ev: "all_evs = evs @ [Attempt name (Inr response)]"
      and ns: "\<not> list_ex is_success evs"
      and on: "list_all (\<lambda>e. \<forall>m. invokes m e \<longrightarrow> m \<in> set pre \<union> {name}) all_evs"
      and tn: "list_all (\<lambda>m. providers r m = None \<or> list_ex (consulted m) evs) pre"
      by (auto simp: chain_outcome_def)
    have di: "distinct (pre @ name # post)"
      using buildProviderChain_distinct[of r preferredProvider] ch by simp
    have "list_all (\<lambda>m. \<not> list_ex (invokes m) (evs @ [Attempt name (Inr response)])) post"
      unfolding list_all_iff list_ex_iff
    proof (intro ballI notI)
      fix m assume m: "m \<in> set post" and "\<exists>e\<in>set (evs @ [Attempt name (Inr response)]). invokes m e"
      then obtain e where "e \<in> set (evs @ [Attempt name (Inr response)])" "invokes m e" by blast
      then have "e \<in> set all_evs" "invokes m e" using ev by simp_all
      with on have "m \<in> set pre \<union> {name}" unfolding list_all_iff by blast
      with di m show False by auto
    qed
    with ch ev ns tn have "\<exists>pre name post evs.
              ?chain = pre @ name # post
            \<and> all_evs = evs @ [Attempt name (Inr response)]
            \<and> \<not> list_ex is_success evs
            \<and> list_all (\<lambda>m. providers r m = None \<or> list_ex (consulted m) evs) pre
            \<and> list_all (\<lambda>m. \<not> list_ex (invokes m) (evs @ [Attempt name (Inr response)])) post"
      by blast
    with Inr show ?thesis by simp
  qed
  show ?thesis
    unfolding d using a an third by simp
qed

text \<open>
  Two runs. Over two providers that both answer, the first is checked and called, and
  the second does not occur in the trace. Over a first provider that refuses the key
  and a second that answers, the first is checked and called once, and the response is
  the second's.
\<close>

theorem first_success_wins_witness:
  "generate two_provider_router [] None []
     = (Inr reply, [Checked (js ''p1'') (Inr True), Attempt (js ''p1'') (Inr reply)])
   \<and> \<not> list_ex (invokes (js ''p2'')) (snd (generate two_provider_router [] None []))
   \<and> answered two_provider_router [] []
        [Checked (js ''p1'') (Inr True), Attempt (js ''p1'') (Inr reply)]
   \<and> generate fallback_router [] None []
       = (Inr reply,
          [Checked (js ''p1'') (Inr True),
           Attempt (js ''p1'') (generateCompletion unauthorized [Checked (js ''p1'') (Inr True)] []),
           Checked (js ''p2'') (Inr True), Attempt (js ''p2'') (Inr reply)])
   \<and> answered fallback_router [] []
        [Checked (js ''p1'') (Inr True),
         Attempt (js ''p1'') (generateCompletion unauthorized [Checked (js ''p1'') (Inr True)] []),
         Checked (js ''p2'') (Inr True), Attempt (js ''p2'') (Inr reply)]"
proof -
  have run: "generate two_provider_router [] None []
     = (Inr reply, [Checked (js ''p1'') (Inr True), Attempt (js ''p1'') (Inr reply)])"
    by (simp add: generate_def buildProviderChain_def two_provider_router_def registerProvider_def
      new_router_def succeeding_def generateWithRetry_def retry_loop.simps js_def)
  have run2: "generate fallback_router [] None []
       = (Inr reply,
          [Checked (js ''p1'') (Inr True),
           Attempt (js ''p1'') (generateCompletion unauthorized [Checked (js ''p1'') (Inr True)] []),
           Checked (js ''p2'') (Inr True), Attempt (js ''p2'') (Inr reply)])"
    by (simp add: generate_def buildProviderChain_def fallback_router_def registerProvider_def
      new_router_def succeeding_def unauthorized_def generateWithRetry_def retry_loop.simps
      caught_def js_def)
  have "\<not> list_ex (invokes (js ''p2'')) (snd (generate two_provider_router [] None []))"
    by (simp add: run js_def)
  with run run2
    first_success_wins[OF run]
    first_success_wins[OF run2]
  show ?thesis by simp
qed

section \<open>Properties of the provider client\<close>

lemma truthy_get_member: "truthy v \<Longrightarrow> \<exists>x. get_member v k = Inr x"
  by (cases v) auto

lemma truthy_get_index: "truthy v \<Longrightarrow> \<exists>x. get_index v i = Inr x"
  by (cases v) auto

lemma opt_member_total: "\<exists>x. opt_member v k = Inr x"
  by (cases v) auto

lemma falsy_safe_index: "\<not> truthy v \<Longrightarrow> safe_index v i = JUndefined"
  by (cases v) (auto simp: safe_index_def)

lemma falsy_safe_message: "\<not> truthy v \<Longrightarrow> safe_member v (js ''message'') = JUndefined"
  by (cases v) (auto simp: safe_member_def js_def)

lemma undefined_safe_message: "safe_member JUndefined k = JUndefined"
  by (simp add: safe_member_def)

lemma undefined_safe_index: "safe_index JUndefined i = JUndefined"
  by (simp add: safe_index_def)

lemma parse_body_verdict:
  "verdict_of (parseResponse cfg data) = (if has_message data then Returns else Raises PARSE_ERROR False)"
proof (cases "get_member data (js ''choices'')")
  case (Inl error)
  then have "data = JUndefined \<or> data = JNull" by (cases data) auto
  then show ?thesis
    by (auto simp: parseResponse_def parse_body_def and_then_def has_message_def safe_member_def safe_index_def)
next
  case (Inr choices)
  then have sc: "safe_member data (js ''choices'') = choices" by (simp add: safe_member_def)
  have du: "\<exists>x. get_member data k = Inr x" for k using Inr by (cases data) auto
  show ?thesis
  proof (cases "truthy choices")
    case False
    then show ?thesis
      using Inr sc
      by (simp add: parseResponse_def parse_body_def and_then_def has_message_def falsy_safe_index
          undefined_safe_message)
  next
    case True
    then obtain first where f: "get_index choices 0 = Inr first" using truthy_get_index by blast
    then have sf: "safe_index choices 0 = first" by (simp add: safe_index_def)
    show ?thesis
    proof (cases "truthy first")
      case False
      then show ?thesis
        using Inr sc True f sf
        by (simp add: parseResponse_def parse_body_def and_then_def has_message_def falsy_safe_message)
    next
      case tf: True
      then obtain message where m: "get_member first (js ''message'') = Inr message"
        using truthy_get_member by blast
      then have sm: "safe_member first (js ''message'') = message" by (simp add: safe_member_def)
      show ?thesis
      proof (cases "truthy message")
        case False
        then show ?thesis
          using Inr sc True f sf tf m sm
          by (simp add: parseResponse_def parse_body_def and_then_def has_message_def)
      next
        case tm: True
        obtain answer where c: "get_member message (js ''content'') = Inr answer"
          using truthy_get_member[OF tm] by blast
        obtain usage where u: "get_member data (js ''usage'') = Inr usage" using du by blast
        obtain model where mo: "get_member data (js ''model'') = Inr model" using du by blast
        obtain fr where fr: "get_member first (js ''finish_reason'') = Inr fr"
          using truthy_get_member[OF tf] by blast
        obtain pt ct tt where o: "opt_member usage (js ''prompt_tokens'') = Inr pt"
          "opt_member usage (js ''completion_tokens'') = Inr ct"
          "opt_member usage (js ''total_tokens'') = Inr tt"
          using opt_member_total by meson
        show ?thesis
          using Inr sc True f sf tf m sm tm c u mo fr o
          by (simp add: parseResponse_def parse_body_def and_then_def has_message_def)
      qed
    qed
  qed
qed


subsection \<open>C6: classification of the outcome of one call\<close>

text \<open>
  C6. For an initialised provider, what one call of \<open>generateCompletion\<close> does is the
  table \<open>error_classification\<close> of the HTTP outcome: status 401 or 403 raises an
  authentication error, not retryable; 429 a rate-limit error, retryable; 500 and above
  an API error, retryable; every other status but 200 (so every other non-2xx status)
  an API error, not retryable; a 200 response whose payload lacks \<open>choices[0].message\<close>
  a parse error, not retryable; a connection failure a network error, retryable; and a
  200 response with \<open>choices[0].message\<close> returns.
\<close>

theorem completion_error_classification:
  "verdict_of (openai_generateCompletion (Some cfg) requestUrl messages)
     = error_classification (requestUrl (completion_request cfg messages))"
proof (cases "requestUrl (completion_request cfg messages)")
  case (NetworkFailure msg)
  then show ?thesis
    by (simp add: openai_generateCompletion_def error_classification_def)
next
  case (Response status bodytext data)
  then show ?thesis
    by (simp add: openai_generateCompletion_def error_classification_def status_error_def
        parse_body_verdict)
qed

section \<open>Properties of the prompt manager\<close>

subsection \<open>C8: rendering a template\<close>

lemma content_is_literal_key: "literal_key (js ''content'')"
  by (simp add: literal_key_def js_def regex_special_def quantifier_body_def is_digit_def)


text \<open>
  C8. \<open>renderPrompt\<close> hands the value to \<open>String.prototype.replace\<close> as the replacement
  text, where \<open>$$\<close>, \<open>$&\<close>, \<open>$`\<close> and \<open>$'\<close> are patterns. For the registered template
  \<open>Content: {{content}}\<close> and the value \<open>$$x$$\<close> (display math in a note), the user
  message is \<open>Content: $x$\<close>, while the template with its \<open>{{content}}\<close> substituted by
  the value is \<open>Content: $$x$$\<close>.
\<close>

theorem dollar_in_value_is_rewritten:
  "renderPrompt rt one_template (js ''ask'') [(js ''content'', js ''$$x$$'')]
     = Inr [\<lparr> msg_role = js ''system'', msg_content = js ''You are a tutor.'' \<rparr>,
            \<lparr> msg_role = js ''user'', msg_content = js ''Content: $x$'' \<rparr>]
   \<and> substituted [(js ''content'', js ''$$x$$'')] (userPromptTemplate question_template)
       = js ''Content: $$x$$''"
proof -
  have r: "replace_all_literal (js ''{{content}}'') (js ''$$x$$'') (js ''Content: {{content}}'')
            = js ''Content: $x$''"
    by (simp add: replace_all_literal_def js_def replace_from.simps)
  have k: "js ''{{'' @ js ''content'' @ js ''}}'' = js ''{{content}}''" by (simp add: js_def)
  have a: "renderPrompt rt one_template (js ''ask'') [(js ''content'', js ''$$x$$'')]
     = Inr [\<lparr> msg_role = js ''system'', msg_content = js ''You are a tutor.'' \<rparr>,
            \<lparr> msg_role = js ''user'', msg_content = js ''Content: $x$'' \<rparr>]"
    by (simp add: renderPrompt_def one_template_def registerTemplate_def question_template_def
        js_in_def replace_placeholder_def content_is_literal_key k r)
  have b: "substituted [(js ''content'', js ''$$x$$'')] (userPromptTemplate question_template)
       = js ''Content: $$x$$''"
    by (simp add: question_template_def js_def substituted.simps)
  from a b show ?thesis by simp
qed

section \<open>Properties of the generator\<close>

subsection \<open>C7: batch quality\<close>

text \<open>
  C7. For the cards with confidences 0 and 1, \<open>calculateBatchQuality\<close> returns
  \<open>(0.8 + 1) / 2 = 0.9\<close>: the confidence 0 is falsy and is replaced by the default,
  although the card specifies it. The mean of the confidences, which the specification
  gives as the quality, is \<open>0.5\<close>.
\<close>

theorem zero_confidence_counts_as_default:
  "calculateBatchQuality [basic_card (Some 0), basic_card (Some 1)] = 9 / 10
   \<and> stated_batch_quality [basic_card (Some 0), basic_card (Some 1)] = 1 / 2"
  by (simp add: calculateBatchQuality_def stated_batch_quality_def confidence_or_default_def
      stated_confidence_def basic_card_def)


subsection \<open>Cards built from parsed model output\<close>

lemma map_of_obj_set: "map_of (obj_set ms k v) k' = (if k' = k then Some v else map_of ms k')"
proof (cases "k \<in> fst ` set ms")
  case True
  have "map_of (map (\<lambda>(a, b). if a = k then (a, v) else (a, b)) ms) k'
          = (if k' = k then (if k \<in> fst ` set ms then Some v else None) else map_of ms k')"
    by (induction ms) (auto split: if_splits)
  with True show ?thesis by (simp add: obj_set_def)
next
  case False
  then have "map_of ms k = None" by (simp add: map_of_eq_None_iff)
  with False show ?thesis by (auto simp: obj_set_def map_add_def split: option.splits)
qed

lemma map_of_spread_fold:
  "map_of (fold (\<lambda>(k, x) ms. obj_set ms k x) es base) k
     = (case map_of (rev es) k of Some v \<Rightarrow> Some v | None \<Rightarrow> map_of base k)"
proof (induction es arbitrary: base)
  case Nil
  show ?case by simp
next
  case (Cons e es)
  obtain k0 v0 where e: "e = (k0, v0)" by (cases e)
  show ?case
    by (simp add: e Cons.IH map_of_obj_set map_add_def split: option.splits)
qed

lemma map_of_rev_None: "(map_of (rev es) k = None) = (map_of es k = None)"
  by (simp add: map_of_eq_None_iff)

lemma decimal_digits: "c \<in> set (decimal n) \<Longrightarrow> 48 \<le> c \<and> c \<le> 57"
proof (induction n arbitrary: c rule: decimal.induct)
  case (1 n)
  show ?case
  proof (cases "n < 10")
    case True
    with "1.prems" show ?thesis by (subst (asm) decimal.simps) simp
  next
    case False
    with "1.prems" have "c \<in> set (decimal (n div 10)) \<or> c = 48 + n mod 10"
      by (subst (asm) decimal.simps) auto
    then show ?thesis
    proof
      assume "c \<in> set (decimal (n div 10))"
      with "1.IH"[OF False] show ?thesis by simp
    next
      assume "c = 48 + n mod 10"
      then show ?thesis by simp
    qed
  qed
qed

lemma decimal_not_confidence: "decimal n \<noteq> js ''confidence''"
proof
  assume "decimal n = js ''confidence''"
  then have "99 \<in> set (decimal n)" by (simp add: js_def)
  from decimal_digits[OF this] show False by simp
qed

lemma no_confidence_index: "js ''confidence'' \<notin> fst ` set (rev (zip (map decimal ns) vs))"
proof
  assume "js ''confidence'' \<in> fst ` set (rev (zip (map decimal ns) vs))"
  then have "js ''confidence'' \<in> set (map decimal ns)" by (auto dest: set_zip_leftD)
  then obtain n where "decimal n = js ''confidence''" by auto
  with decimal_not_confidence show False by blast
qed

lemma own_entries_confidence:
  "map_of (rev (own_entries src)) (js ''confidence'') = own_confidence src"
proof (cases src)
  case (JArr xs)
  show ?thesis
    using JArr no_confidence_index[of "[0..<length xs]" xs]
    by (simp add: map_of_eq_None_iff[THEN iffD2])
next
  case (JStr s)
  show ?thesis
    using JStr no_confidence_index[of "[0..<length s]" "map (\<lambda>c. JStr [c]) s"]
    by (simp add: map_of_eq_None_iff[THEN iffD2])
qed simp_all

lemma build_card_confidence:
  assumes b: "build_card src = Inr built"
  shows "carried_confidence built = (case own_confidence src of Some v \<Rightarrow> v | None \<Rightarrow> JNum 0.8)"
proof -
  from b obtain ty fr bk tg cf where
    cf: "get_member src (js ''confidence'') = Inr cf"
    and built: "built = JObj (spread
         [(js ''type'', js_or ty (JStr (js ''basic''))),
          (js ''front'', js_or fr (JStr [])),
          (js ''back'', js_or bk (JStr [])),
          (js ''tags'', js_or tg (JArr [])),
          (js ''confidence'', js_or cf (JNum 0.8))] src)"
    by (auto simp: build_card_def and_then_def split: sum.splits)
  let ?base = "[(js ''type'', js_or ty (JStr (js ''basic''))),
          (js ''front'', js_or fr (JStr [])),
          (js ''back'', js_or bk (JStr [])),
          (js ''tags'', js_or tg (JArr [])),
          (js ''confidence'', js_or cf (JNum 0.8))]"
  have base: "map_of ?base (js ''confidence'') = Some (js_or cf (JNum 0.8))"
    by (simp add: js_def)
  have look: "map_of (spread ?base src) (js ''confidence'')
        = (case own_confidence src of Some v \<Rightarrow> Some v | None \<Rightarrow> Some (js_or cf (JNum 0.8)))"
    unfolding spread_def map_of_spread_fold own_entries_confidence base ..
  show ?thesis
  proof (cases "own_confidence src")
    case (Some v)
    with look built show ?thesis by (simp add: carried_confidence_def safe_member_def)
  next
    case None
    have "cf = JUndefined"
    proof (cases src)
      case (JObj members)
      with None have "map_of members (js ''confidence'') = None" by (simp add: map_of_rev_None)
      with cf JObj show ?thesis by simp
    qed (use cf in \<open>auto simp: js_def split: if_splits\<close>)
    with look built None show ?thesis
      by (simp add: carried_confidence_def safe_member_def js_or_def)
  qed
qed

lemma build_card_throws: "(\<exists>error. build_card src = Inl error) = is_nullish src"
  by (cases src) (simp_all add: build_card_def and_then_def)

lemma map_throwing_all2:
  "map_throwing f xs = Inr ys \<Longrightarrow> list_all2 (\<lambda>x y. f x = Inr y) xs ys"
proof (induction xs arbitrary: ys)
  case Nil
  then show ?case by simp
next
  case (Cons x xs)
  then show ?case by (auto split: sum.splits)
qed

lemma map_throwing_throws:
  "(\<exists>error. map_throwing f xs = Inl error) = list_ex (\<lambda>x. \<exists>error. f x = Inl error) xs"
  by (induction xs) (auto split: sum.splits)

lemma get_member_other: "get_member v k = Inr x \<Longrightarrow> \<exists>y. get_member v k' = Inr y"
  by (cases v) simp_all

lemma card_body_cards:
  "source_cards rt response = None \<Longrightarrow> \<exists>error. card_body rt response = Inl error"
  "source_cards rt response = Some srcs \<Longrightarrow>
     (case map_throwing build_card srcs of
        Inl error \<Rightarrow> card_body rt response = Inl error
      | Inr built \<Rightarrow> \<exists>result. card_body rt response = Inr result \<and> cards result = built)"
  by (auto simp: source_cards_def card_body_def and_then_def split: sum.splits json.splits
      dest: get_member_other[of _ "js ''cards''" _ "js ''sectionSummary''"])

lemma parseCardResponse_cards:
  "case source_cards rt response of
     None \<Rightarrow> cards (parseCardResponse rt response) = []
   | Some srcs \<Rightarrow>
       if list_ex is_nullish srcs then cards (parseCardResponse rt response) = []
       else list_all2
              (\<lambda>src built. build_card src = Inr built
                 \<and> carried_confidence built = (case own_confidence src of Some v \<Rightarrow> v | None \<Rightarrow> JNum 0.8))
              srcs (cards (parseCardResponse rt response))"
proof (cases "source_cards rt response")
  case None
  from card_body_cards(1)[OF this] show ?thesis by (auto simp: None parseCardResponse_def)
next
  case (Some srcs)
  note body = card_body_cards(2)[OF Some]
  show ?thesis
  proof (cases "map_throwing build_card srcs")
    case (Inl error)
    then have "list_ex is_nullish srcs"
      using map_throwing_throws[of build_card srcs] by (simp add: build_card_throws)
    moreover have "cards (parseCardResponse rt response) = []"
      using body Inl by (simp add: parseCardResponse_def)
    ultimately show ?thesis by (simp add: Some)
  next
    case (Inr built)
    then have "\<not> list_ex is_nullish srcs"
      using map_throwing_throws[of build_card srcs] by (simp add: build_card_throws)
    moreover have c: "cards (parseCardResponse rt response) = built"
      using body Inr by (auto simp: parseCardResponse_def)
    moreover have "list_all2
              (\<lambda>src built. build_card src = Inr built
                 \<and> carried_confidence built = (case own_confidence src of Some v \<Rightarrow> v | None \<Rightarrow> JNum 0.8))
              srcs built"
      using map_throwing_all2[OF Inr]
      by (rule list_all2_mono) (simp add: build_card_confidence)
    ultimately show ?thesis by (simp add: Some)
  qed
qed

lemma overconfident_build:
  "build_card (JObj [(js ''confidence'', JNum 5)])
     = Inr (JObj [(js ''type'', JStr (js ''basic'')), (js ''front'', JStr []), (js ''back'', JStr []),
                  (js ''tags'', JArr []), (js ''confidence'', JNum 5)])"
  by (simp add: build_card_def and_then_def js_or_def spread_def obj_set_def js_def)


subsection \<open>C9: ranges of importance and confidence\<close>

text \<open>
  C9 as stated fails for the confidence: \<open>parseCardResponse\<close> spreads the source card
  over the defaults and clamps nothing. From the response
  \<open>{"cards":[{"confidence":5}]}\<close> it produces one card, whose confidence is 5.
\<close>

theorem parsed_confidence_above_one:
  "map carried_confidence (cards (parseCardResponse overconfident_runtime (JStr overconfident_text)))
     = [JNum 5]
   \<and> \<not> (5 \<le> (1::real))"
proof -
  have p: "JSON_parse overconfident_runtime overconfident_text
        = Some (JObj [(js ''cards'', JArr [JObj [(js ''confidence'', JNum 5)]])])"
    by (simp add: overconfident_runtime_def)
  have g: "regex_group1 overconfident_runtime JsonFenceRe overconfident_text = None"
    by (simp add: overconfident_runtime_def quiet_runtime_def)
  have "cards (parseCardResponse overconfident_runtime (JStr overconfident_text))
        = [JObj [(js ''type'', JStr (js ''basic'')), (js ''front'', JStr []), (js ''back'', JStr []),
                  (js ''tags'', JArr []), (js ''confidence'', JNum 5)]]"
    by (simp add: parseCardResponse_def card_body_def extract_json_def p g and_then_def js_or_def
        overconfident_build)
  then show ?thesis
    by (simp add: carried_confidence_def safe_member_def js_def)
qed

text \<open>
  C9, amended. Every importance score of a chunk returned by \<open>chunkDocument\<close> lies in
  \<open>[0,1]\<close>, the level of every chunk being within \<open>0..6\<close>. The cards that
  \<open>parseCardResponse\<close> produces are, one for one and in order, the cards built from
  the source cards of the parsed response, and each carries its source card's own
  member \<open>confidence\<close> unchanged when it has one, and \<open>0.8\<close> otherwise; there are
  none when the response does not parse to source cards or one of them is \<open>null\<close>.
  So a confidence lies in \<open>[0,1]\<close> when the model's value does, and not otherwise.
\<close>

theorem scores_and_confidences:
  "list_all (\<lambda>c. 0 \<le> importance c \<and> importance c \<le> 1) (chunkDocument rt text options)
   \<and> list_all (\<lambda>c. level c \<le> 6) (chunkDocument rt text options)
   \<and> (case source_cards rt' response of
         None \<Rightarrow> cards (parseCardResponse rt' response) = []
       | Some srcs \<Rightarrow>
           if list_ex is_nullish srcs then cards (parseCardResponse rt' response) = []
           else list_all2
                  (\<lambda>src built. build_card src = Inr built
                     \<and> carried_confidence built
                         = (case own_confidence src of Some v \<Rightarrow> v | None \<Rightarrow> JNum 0.8))
                  srcs (cards (parseCardResponse rt' response)))"
proof (intro conjI)
  show "list_all (\<lambda>c. 0 \<le> importance c \<and> importance c \<le> 1) (chunkDocument rt text options)"
    unfolding chunkDocument_def chunker_run_def by (rule chunk_lines_importance)
  show "list_all (\<lambda>c. level c \<le> 6) (chunkDocument rt text options)"
    using chunk_lines_props(3)[of rt "maxTokens_of options" "minTokens_of options" "split_on 10 text"]
    by (simp add: chunkDocument_def chunker_run_def list_all_iff)
  show "case source_cards rt' response of
         None \<Rightarrow> cards (parseCardResponse rt' response) = []
       | Some srcs \<Rightarrow>
           if list_ex is_nullish srcs then cards (parseCardResponse rt' response) = []
           else list_all2
                  (\<lambda>src built. build_card src = Inr built
                     \<and> carried_confidence built
                         = (case own_confidence src of Some v \<Rightarrow> v | None \<Rightarrow> JNum 0.8))
                  srcs (cards (parseCardResponse rt' response))"
    by (rule parseCardResponse_cards)
qed

text \<open>
  A response with two cards, the first without a confidence and the second with
  \<open>0.3\<close>: two cards come out, with confidences \<open>0.8\<close> and \<open>0.3\<close>.
\<close>

theorem scores_and_confidences_witness:
  "source_cards two_card_runtime (JStr two_card_text)
     = Some [JObj [(js ''front'', JStr (js ''Q''))], JObj [(js ''confidence'', JNum 0.3)]]
   \<and> map carried_confidence (cards (parseCardResponse two_card_runtime (JStr two_card_text)))
       = [JNum 0.8, JNum 0.3]"
proof -
  have p: "JSON_parse two_card_runtime two_card_text
        = Some (JObj [(js ''cards'',
                  JArr [JObj [(js ''front'', JStr (js ''Q''))], JObj [(js ''confidence'', JNum 0.3)]])])"
    by (simp add: two_card_runtime_def)
  have g: "regex_group1 two_card_runtime JsonFenceRe two_card_text = None"
    by (simp add: two_card_runtime_def quiet_runtime_def)
  have src: "source_cards two_card_runtime (JStr two_card_text)
     = Some [JObj [(js ''front'', JStr (js ''Q''))], JObj [(js ''confidence'', JNum 0.3)]]"
    by (simp add: source_cards_def extract_json_def p g js_or_def)
  have ne: "js ''confidence'' \<noteq> js ''front''" "js ''front'' \<noteq> js ''confidence''"
    by (simp_all add: js_def)
  from scores_and_confidences[of quiet_runtime "[]" None two_card_runtime "JStr two_card_text"]
  have "list_all2
          (\<lambda>src built. build_card src = Inr built
             \<and> carried_confidence built
                 = (case own_confidence src of Some v \<Rightarrow> v | None \<Rightarrow> JNum 0.8))
          [JObj [(js ''front'', JStr (js ''Q''))], JObj [(js ''confidence'', JNum 0.3)]]
          (cards (parseCardResponse two_card_runtime (JStr two_card_text)))"
    by (simp add: src)
  then have "map carried_confidence (cards (parseCardResponse two_card_runtime (JStr two_card_text)))
       = [JNum 0.8, JNum 0.3]"
    by (auto simp: list_all2_Cons1 ne)
  with src show ?thesis by simp
qed


subsection \<open>C1: a run over a document without headings\<close>

lemma generate_loop_count:
  "generate_loop rt ts r plan cap n i cs prev made tr = (items, made', tr')
   \<Longrightarrow> made' = made + sum_list (map batch_size items)"
proof (induction cs arbitrary: i prev made tr items made' tr')
  case Nil
  then show ?case by simp
next
  case (Cons chunk rest)
  show ?case
  proof (cases "made < cap")
    case False
    with Cons.prems show ?thesis by simp
  next
    case True
    obtain res tr1 where g: "generateCardsForChunk rt ts r chunk (overview plan) prev tr = (res, tr1)"
      by (cases "generateCardsForChunk rt ts r chunk (overview plan) prev tr") auto
    show ?thesis
    proof (cases res)
      case (Inl error)
      obtain its m t where l: "generate_loop rt ts r plan cap n (i + 1) rest prev made tr1 = (its, m, t)"
        by (cases "generate_loop rt ts r plan cap n (i + 1) rest prev made tr1") auto
      from Cons.IH[OF l] Cons.prems True g Inl l show ?thesis
        by (auto simp: generating_event_def)
    next
      case (Inr batch)
      show ?thesis
      proof (cases "cap \<le> made + length (batch_cards batch)")
        case stop: True
        with Cons.prems True g Inr show ?thesis by (auto simp: generating_event_def)
      next
        case False
        obtain its m t where l: "generate_loop rt ts r plan cap n (i + 1) rest (summary batch)
              (made + length (batch_cards batch)) tr1 = (its, m, t)"
          by (cases "generate_loop rt ts r plan cap n (i + 1) rest (summary batch)
              (made + length (batch_cards batch)) tr1") auto
        from Cons.IH[OF l] Cons.prems True g Inr False l show ?thesis
          by (auto simp: generating_event_def)
      qed
    qed
  qed
qed

lemma overview_lines_level0:
  "map_throwing overview_line cs
     = (if list_ex (\<lambda>c. level c = 0) cs then Inl range_error
        else Inr (map (\<lambda>c. replicate (2 * (level c - 1)) 32 @ js ''- '' @ heading c) cs))"
  by (induction cs) (auto simp: overview_line_def)

lemma createOverview_level0:
  "(\<exists>outline. createOverview cs = Inr outline) = (\<not> list_ex (\<lambda>c. level c = 0) cs)"
  "list_ex (\<lambda>c. level c = 0) cs \<Longrightarrow> createOverview cs = Inl range_error"
proof -
  have f: "list_ex (\<lambda>c. level c = 0) (filter (\<lambda>chunk. level chunk \<le> 2) cs) = list_ex (\<lambda>c. level c = 0) cs"
    by (auto simp: list_ex_iff)
  show "(\<exists>outline. createOverview cs = Inr outline) = (\<not> list_ex (\<lambda>c. level c = 0) cs)"
    by (simp add: createOverview_def overview_lines_level0 f)
  show "list_ex (\<lambda>c. level c = 0) cs \<Longrightarrow> createOverview cs = Inl range_error"
    by (simp add: createOverview_def overview_lines_level0 f)
qed

lemma prioritize_level0:
  "list_ex (\<lambda>c. level c = 0) (prioritizeChunks cs) = list_ex (\<lambda>c. level c = 0) cs"
  by (simp add: prioritizeChunks_def list_ex_iff)

text \<open>
  How a run pulled to its end finishes: a chunk of level 0 makes \<open>createOverview\<close>
  throw before the first chunk is processed; without one the generator returns, its last
  item is \<open>completed\<close>, and the count there is the number of cards in the batches
  yielded.
\<close>

lemma multi_pass_run_ends:
  assumes run: "generateCardsMultiPass rt ts r text options tr = (items, ending, tr')"
  shows "if list_ex (\<lambda>c. level c = 0)
              (chunkDocument rt text (Some \<lparr> maxTokens = Some 1500, minTokens = Some 200 \<rparr>))
         then ending = Escaped range_error \<and> items = [planning_event, analyzing_event]
         else ending = Returned
              \<and> (\<exists>before. items = before @ [completed_event (sum_list (map batch_size items))])"
proof -
  let ?cs = "chunkDocument rt text (Some \<lparr> maxTokens = Some 1500, minTokens = Some 200 \<rparr>)"
  let ?cap = "or_default (case options of None \<Rightarrow> None | Some opts \<Rightarrow> maxCards opts) 50"
  obtain plan tr1 where a: "analyzeDocument rt ts r text tr = (plan, tr1)"
    by (cases "analyzeDocument rt ts r text tr") auto
  show ?thesis
  proof (cases "list_ex (\<lambda>c. level c = 0) ?cs")
    case True
    then have "createOverview (prioritizeChunks ?cs) = Inl range_error"
      by (intro createOverview_level0(2)) (simp add: prioritize_level0)
    with run a True show ?thesis by (simp add: generateCardsMultiPass_def Let_def)
  next
    case False
    then obtain outline where o: "createOverview (prioritizeChunks ?cs) = Inr outline"
      using createOverview_level0(1)[of "prioritizeChunks ?cs"] by (auto simp: prioritize_level0)
    obtain its made t where l: "generate_loop rt ts r plan ?cap (length (prioritizeChunks ?cs)) 0
        (prioritizeChunks ?cs) (JStr []) 0 tr1 = (its, made, t)"
      by (cases "generate_loop rt ts r plan ?cap (length (prioritizeChunks ?cs)) 0
        (prioritizeChunks ?cs) (JStr []) 0 tr1") auto
    from generate_loop_count[OF l] have m: "made = sum_list (map batch_size its)" by simp
    from run a o l have items: "items = [planning_event, analyzing_event] @ its @ [completed_event made]"
      and e: "ending = Returned"
      by (simp_all add: generateCardsMultiPass_def Let_def)
    have "sum_list (map batch_size items) = made"
      by (simp add: items m planning_event_def analyzing_event_def completed_event_def)
    with items e False show ?thesis by auto
  qed
qed

lemma plain_document_chunk:
  assumes nl: "10 \<notin> set text" and hm: "heading_match text = None"
    and small: "estimateTokens text < maxT" and ok: "minT \<le> 2 * estimateTokens text"
  shows "chunks (chunk_lines rt maxT minT (split_on 10 text)) =
           [new_chunk rt (initial_chunker\<lparr>currentChunk := [text]\<rparr>) text 0]"
proof -
  have step: "chunk_step rt maxT minT 0 text initial_chunker = initial_chunker\<lparr>currentChunk := [text]\<rparr>"
    using hm small by (simp add: chunk_step_def body_line_def initial_chunker_def)
  have ini: "chunks initial_chunker = []" by (simp add: initial_chunker_def)
  show ?thesis
    using ok by (simp add: chunk_lines_def split_on_no_sep[OF nl] step final_flush_def ini)
qed

lemma level0_overview_throws:
  "level c = 0 \<Longrightarrow> createOverview (prioritizeChunks [c]) = Inl range_error"
  by (simp add: createOverview_def prioritizeChunks_def overview_line_def)


text \<open>
  C1. A document of 400 letters \<open>a\<close> has no heading, so its one chunk (100 tokens, at
  least \<open>minTokens / 2 = 100\<close>) keeps the level 0 of \<open>Introduction\<close>. \<open>createOverview\<close>
  computes \<open>'  '.repeat(-1)\<close> for it and throws a RangeError outside every \<open>try\<close> of
  \<open>generateCardsMultiPass\<close>: the run yields \<open>planning\<close> and \<open>analyzing\<close> and ends with
  the error, whatever the router and its providers do; no \<open>completed\<close> event follows.
\<close>

theorem plain_document_escapes:
  "fst (generateCardsMultiPass rt ts r (replicate 400 97) options tr)
     = [planning_event, analyzing_event]
   \<and> fst (snd (generateCardsMultiPass rt ts r (replicate 400 97) options tr))
     = Escaped range_error"
proof -
  let ?text = "replicate 400 97 :: js_string"
  have nl: "10 \<notin> set ?text" by simp
  have hd: "?text = 97 # replicate 399 97"
    using replicate_Suc[of 399 "97::nat"] by simp
  have hm: "heading_match ?text = None"
    unfolding hd by (simp add: heading_match_def)
  have est: "estimateTokens ?text = 100" by (simp add: estimateTokens_def)
  have cs: "chunkDocument rt ?text (Some \<lparr> maxTokens = Some 1500, minTokens = Some 200 \<rparr>)
          = [new_chunk rt (initial_chunker\<lparr>currentChunk := [?text]\<rparr>) ?text 0]"
    unfolding chunkDocument_def chunker_run_def
    using plain_document_chunk[OF nl hm, of 1500 200 rt] est
    by (simp add: maxTokens_of_def minTokens_of_def)
  have lv: "level (new_chunk rt (initial_chunker\<lparr>currentChunk := [?text]\<rparr>) ?text 0) = 0"
    by (simp add: new_chunk_def initial_chunker_def)
  show ?thesis
    by (simp add: generateCardsMultiPass_def Let_def cs level0_overview_throws[OF lv] split: prod.splits)
qed

end
